theory Spec2Isabelle
  imports Complex_Main
begin

section \<open>The host environment of \<open>main.js\<close>\<close>

text \<open>
  The program is a browser script. Everything it calls in the page (video elements, the
  A-Frame scene with its renderer, the WebGL context, the tracking system, \<open>window.gc\<close>)
  is a collaborator. Whether \<open>dispose()\<close> of a texture, \<open>window.gc()\<close>, and \<open>stop()\<close> and
  \<open>start()\<close> of the tracking system return or throw is a parameter of the model, so that
  what the script does when one of them throws is a branch of the definitions below.
  Calls on video elements and on the WebGL context are taken to return.
\<close>

datatype outcome = Returns | Throws

text \<open>
  An entry of the array \<open>scene.renderer.info.memory.textures\<close>, as the test
  \<open>texture && texture.dispose\<close> sees it: a falsy entry, an object without \<open>dispose\<close>,
  or an object whose \<open>dispose()\<close> returns or throws.
\<close>

datatype texture = NullTexture | NoDispose | Disposable outcome

text \<open>
  The value of \<open>scene.renderer.info.memory.textures\<close>: falsy (replaced by \<open>[]\<close>), a value
  that is not an array (skipped by \<open>Array.isArray\<close>), or an array.
\<close>

datatype registry = Falsy | NotArray | TextureArray "texture list"

record glContext =
  maxTextureImageUnits :: nat

record renderer =
  getContext :: "glContext option"
  textures :: registry

record arSystem =
  stop :: outcome
  start :: outcome

record scene =
  renderer :: "renderer option"
  mindar :: "arSystem option"

record host =
  scene :: "scene option"
  gc :: "outcome option"
  memory :: bool

record video =
  paused :: bool
  currentTime :: nat
  src :: string

section \<open>Program state, scheduled tasks and the trace of effects\<close>

text \<open>The three callbacks the script passes to \<open>setTimeout\<close>.\<close>

datatype task = RestoreSrc nat string | StartTracking | DecayErrorCount

datatype target =
  TEXTURE_2D | TEXTURE_CUBE_MAP | ARRAY_BUFFER | ELEMENT_ARRAY_BUFFER | RENDERBUFFER | FRAMEBUFFER

text \<open>
  Every call on a collaborator is recorded, in order. \<open>CleanupCall\<close> marks the entry
  into \<open>performCleanup\<close> with its argument; \<open>UncaughtError\<close> marks an exception that left
  a handler or a timer callback. Videos and textures are named by their position in
  \<open>document.querySelectorAll('video')\<close> and in the texture array.
\<close>

datatype effect =
    CleanupCall bool
  | VideoPause nat
  | VideoSeek nat nat
  | VideoSetSrc nat string
  | VideoLoad nat
  | SetTimeout task nat
  | TextureDispose nat
  | ActiveTexture nat
  | Unbind target
  | GcCall
  | ConsoleWarn string
  | TrackingStop
  | TrackingStart
  | UncaughtError

text \<open>
  \<open>errorCount\<close> and \<open>isProcessing\<close> are the fields of \<open>AROptimizer\<close> (\<open>lastCleanup\<close> is
  never read). \<open>hidden\<close> is \<open>document.hidden\<close>. \<open>now\<close> is the clock in milliseconds and
  \<open>timers\<close> the pending \<open>setTimeout\<close> callbacks with the time they become due.
\<close>

record state =
  videos :: "video list"
  hidden :: bool
  errorCount :: int
  isProcessing :: bool
  now :: nat
  timers :: "(nat \<times> task) list"
  trace :: "effect list"

definition initial :: "video list \<Rightarrow> state" where
  "initial vs = \<lparr>videos = vs, hidden = False, errorCount = 0, isProcessing = False,
     now = 0, timers = [], trace = []\<rparr>"

section \<open>Statements that may throw\<close>

datatype completion = Normal | Abrupt

type_synonym step = "state \<Rightarrow> completion \<times> state"

definition emit :: "effect \<Rightarrow> state \<Rightarrow> state" where
  "emit e s = s\<lparr>trace := trace s @ [e]\<rparr>"

definition lift :: "(state \<Rightarrow> state) \<Rightarrow> step" where
  "lift f s = (Normal, f s)"

text \<open>A call on a collaborator: it is recorded, then returns or throws.\<close>

definition call :: "effect \<Rightarrow> outcome \<Rightarrow> step" where
  "call e oc s = ((case oc of Returns \<Rightarrow> Normal | Throws \<Rightarrow> Abrupt), emit e s)"

text \<open>Sequencing \<open>f; g\<close>: an exception in \<open>f\<close> skips \<open>g\<close>.\<close>

definition andThen :: "step \<Rightarrow> step \<Rightarrow> step" where
  "andThen f g s = (case f s of (Normal, s') \<Rightarrow> g s' | (Abrupt, s') \<Rightarrow> (Abrupt, s'))"

text \<open>\<open>try { f } catch (e) { h }\<close>.\<close>

definition tryCatch :: "step \<Rightarrow> step \<Rightarrow> step" where
  "tryCatch f h s = (case f s of (Normal, s') \<Rightarrow> (Normal, s') | (Abrupt, s') \<Rightarrow> h s')"

text \<open>\<open>setTimeout(t, d)\<close>: the callback becomes due \<open>d\<close> milliseconds from now.\<close>

definition setTimeout :: "task \<Rightarrow> nat \<Rightarrow> state \<Rightarrow> state" where
  "setTimeout t d s = emit (SetTimeout t d) (s\<lparr>timers := timers s @ [(now s + d, t)]\<rparr>)"

section \<open>\<open>performCleanup\<close>\<close>

subsection \<open>Video resources (lines 7 to 20)\<close>

definition pauseVideo :: "nat \<Rightarrow> state \<Rightarrow> state" where
  "pauseVideo i s = emit (VideoPause i) (s\<lparr>videos := (videos s)[i := (videos s ! i)\<lparr>paused := True\<rparr>]\<rparr>)"

definition seekVideo :: "nat \<Rightarrow> nat \<Rightarrow> state \<Rightarrow> state" where
  "seekVideo i t s = emit (VideoSeek i t) (s\<lparr>videos := (videos s)[i := (videos s ! i)\<lparr>currentTime := t\<rparr>]\<rparr>)"

definition setSrc :: "nat \<Rightarrow> string \<Rightarrow> state \<Rightarrow> state" where
  "setSrc i u s = emit (VideoSetSrc i u) (s\<lparr>videos := (videos s)[i := (videos s ! i)\<lparr>src := u\<rparr>]\<rparr>)"

text \<open>
  \<open>video.load()\<close> on an element that was just paused, rewound and emptied leaves
  \<open>paused\<close>, \<open>currentTime\<close> and \<open>src\<close> as they are; only the call is recorded.
\<close>

definition loadVideo :: "nat \<Rightarrow> state \<Rightarrow> state" where
  "loadVideo i s = emit (VideoLoad i) s"

text \<open>The body of \<open>videos.forEach\<close>, for the element at position \<open>i\<close>.\<close>

definition cleanVideo :: "bool \<Rightarrow> nat \<Rightarrow> state \<Rightarrow> state" where
  "cleanVideo fullCleanup i s =
     (if \<not> paused (videos s ! i) then
        let s1 = seekVideo i 0 (pauseVideo i s) in
        if fullCleanup then
          let u = src (videos s1 ! i) in
          setTimeout (RestoreSrc i u) 100 (loadVideo i (setSrc i [] s1))
        else s1
      else s)"

definition cleanVideos :: "bool \<Rightarrow> state \<Rightarrow> state" where
  "cleanVideos fullCleanup s = fold (cleanVideo fullCleanup) [0..<length (videos s)] s"

subsection \<open>WebGL context and textures (lines 22 to 58)\<close>

definition disposeTexture :: "nat \<Rightarrow> texture \<Rightarrow> step" where
  "disposeTexture i t =
     (case t of
        Disposable oc \<Rightarrow> call (TextureDispose i) oc
      | _ \<Rightarrow> lift id)"

fun disposeFrom :: "nat \<Rightarrow> texture list \<Rightarrow> step" where
  "disposeFrom i [] = lift id"
| "disposeFrom i (t # ts) = andThen (disposeTexture i t) (disposeFrom (Suc i) ts)"

definition disposeTextures :: "registry \<Rightarrow> step" where
  "disposeTextures r =
     (case r of
        Falsy \<Rightarrow> disposeFrom 0 []
      | NotArray \<Rightarrow> lift id
      | TextureArray ts \<Rightarrow> disposeFrom 0 ts)"

definition unbindUnit :: "nat \<Rightarrow> state \<Rightarrow> state" where
  "unbindUnit unit s = emit (Unbind TEXTURE_CUBE_MAP) (emit (Unbind TEXTURE_2D) (emit (ActiveTexture unit) s))"

definition unbindAll :: "glContext option \<Rightarrow> state \<Rightarrow> state" where
  "unbindAll g s =
     (case g of
        None \<Rightarrow> s
      | Some gl \<Rightarrow>
          emit (Unbind FRAMEBUFFER) (emit (Unbind RENDERBUFFER)
            (emit (Unbind ELEMENT_ARRAY_BUFFER) (emit (Unbind ARRAY_BUFFER)
              (fold unbindUnit [0..<maxTextureImageUnits gl] s)))))"

definition gcHint :: "outcome option \<Rightarrow> step" where
  "gcHint g =
     (case g of
        None \<Rightarrow> lift id
      | Some oc \<Rightarrow> tryCatch (call GcCall oc) (lift (emit (ConsoleWarn ''GC not available''))))"

definition cleanGraphics :: "host \<Rightarrow> step" where
  "cleanGraphics h =
     (case scene h of
        None \<Rightarrow> lift id
      | Some sc \<Rightarrow>
          (case renderer sc of
             None \<Rightarrow> lift id
           | Some r \<Rightarrow>
               andThen (disposeTextures (textures r))
                 (andThen (lift (unbindAll (getContext r))) (gcHint (gc h)))))"

subsection \<open>Tracking system (lines 60 to 70)\<close>

text \<open>\<open>scene?.systems['mindar-image-system']\<close>.\<close>

definition arSystemOf :: "host \<Rightarrow> arSystem option" where
  "arSystemOf h = (case scene h of None \<Rightarrow> None | Some sc \<Rightarrow> mindar sc)"

definition restartTracking :: "host \<Rightarrow> bool \<Rightarrow> step" where
  "restartTracking h fullCleanup =
     (case arSystemOf h of
        None \<Rightarrow> lift id
      | Some ar \<Rightarrow>
          if fullCleanup then
            tryCatch
              (andThen (call TrackingStop (stop ar)) (lift (setTimeout StartTracking 1000)))
              (lift (emit (ConsoleWarn ''AR system cleanup error:'')))
          else lift id)"

subsection \<open>The whole function\<close>

definition performCleanup :: "host \<Rightarrow> bool \<Rightarrow> step" where
  "performCleanup h fullCleanup =
     andThen (lift (emit (CleanupCall fullCleanup)))
       (andThen (lift (cleanVideos fullCleanup))
         (andThen (cleanGraphics h) (restartTracking h fullCleanup)))"

section \<open>\<open>AROptimizer\<close>\<close>

text \<open>
  \<open>performCleanup\<close> is an ordinary function that ends in \<open>return Promise.resolve()\<close>.
  When it returns, the promise is already resolved, so the reaction attached by
  \<open>.finally\<close> (or the code after \<open>await\<close>) runs in the microtask checkpoint of the same
  task, before any other timer or event handler. When it throws, the exception leaves
  the expression \<open>performCleanup(..)\<close> before \<open>.finally\<close> is attached, and leaves the
  handler.
\<close>

definition guardedCleanup :: "host \<Rightarrow> bool \<Rightarrow> step" where
  "guardedCleanup h fullCleanup s =
     (case performCleanup h fullCleanup (s\<lparr>isProcessing := True\<rparr>) of
        (Normal, s') \<Rightarrow> (Normal, s'\<lparr>isProcessing := False\<rparr>)
      | (Abrupt, s') \<Rightarrow> (Abrupt, s'))"

text \<open>The two interval callbacks of \<open>setupAutoCleanup\<close>.\<close>

definition timerTick :: "host \<Rightarrow> bool \<Rightarrow> step" where
  "timerTick h fullCleanup s =
     (if \<not> hidden s \<and> \<not> isProcessing s then guardedCleanup h fullCleanup s else (Normal, s))"

text \<open>The listener of \<open>arError\<close> registered by \<open>setupErrorHandling\<close>.\<close>

definition arErrorHandler :: "host \<Rightarrow> step" where
  "arErrorHandler h s =
     (let s1 = s\<lparr>errorCount := errorCount s + 1\<rparr> in
      andThen
        (if errorCount s1 > 3 then
           andThen (performCleanup h True) (lift (\<lambda>s. s\<lparr>errorCount := 0\<rparr>))
         else performCleanup h False)
        (lift (setTimeout DecayErrorCount 300000)) s1)"

text \<open>
  The interval callback of \<open>setupMemoryMonitoring\<close>, given the two numbers read from
  \<open>performance.memory\<close>: byte counts, that is, natural numbers that a double holds
  exactly. The product \<open>jsHeapSizeLimit * 0.8\<close> is a product of doubles. The double
  nearest to 0.8 is \<open>3602879701896397 / 2^52\<close>, so the exact product is
  \<open>jsHeapSizeLimit * 3602879701896397 / 2^52\<close>, and the result is this number rounded
  to 53 significant bits, ties to even. \<open>roundToDouble n\<close> rounds the natural number
  \<open>n\<close> in this way (\<open>excessBits n\<close> is the number of low bits that do not fit), and
  the scaling by \<open>2^52\<close> is moved to the other side of the comparison, which is exact.
\<close>

fun excessBits :: "nat \<Rightarrow> nat" where
  "excessBits n = (if n < 2 ^ 53 then 0 else Suc (excessBits (n div 2)))"

declare excessBits.simps [simp del]

definition roundToDouble :: "nat \<Rightarrow> nat" where
  "roundToDouble n =
     (let k = excessBits n; m = n div 2 ^ k; r = n mod 2 ^ k in
      (if 2 * r > 2 ^ k \<or> (2 * r = 2 ^ k \<and> odd m) then m + 1 else m) * 2 ^ k)"

definition overThreshold :: "nat \<Rightarrow> nat \<Rightarrow> bool" where
  "overThreshold usedJSHeapSize jsHeapSizeLimit \<longleftrightarrow>
     usedJSHeapSize * 2 ^ 52 > roundToDouble (jsHeapSizeLimit * 3602879701896397)"

definition heapTick :: "host \<Rightarrow> nat \<Rightarrow> nat \<Rightarrow> step" where
  "heapTick h usedJSHeapSize jsHeapSizeLimit s =
     (if overThreshold usedJSHeapSize jsHeapSizeLimit then
        if \<not> isProcessing s then guardedCleanup h True s else (Normal, s)
      else (Normal, s))"

text \<open>What \<open>initialize\<close> arms: the intervals with their periods, and the error listener.\<close>

datatype interval = LightTimer | FullTimer | HeapSampler

definition setupAutoCleanup :: "(interval \<times> nat) list" where
  "setupAutoCleanup = [(LightTimer, 120000), (FullTimer, 600000)]"

definition setupErrorHandling :: "host \<Rightarrow> bool" where
  "setupErrorHandling h = (case scene h of None \<Rightarrow> False | Some sc \<Rightarrow> True)"

definition setupMemoryMonitoring :: "host \<Rightarrow> (interval \<times> nat) list" where
  "setupMemoryMonitoring h = (if memory h then [(HeapSampler, 30000)] else [])"

definition initialize :: "host \<Rightarrow> (interval \<times> nat) list \<times> bool" where
  "initialize h = (setupAutoCleanup @ setupMemoryMonitoring h, setupErrorHandling h)"

definition armed :: "host \<Rightarrow> interval \<Rightarrow> bool" where
  "armed h i = (i \<in> fst ` set (fst (initialize h)))"

section \<open>Page lifecycle handlers (lines 272 to 280)\<close>

definition visibilitychange :: "host \<Rightarrow> step" where
  "visibilitychange h s = (if hidden s then performCleanup h True s else (Normal, s))"

definition beforeunload :: "host \<Rightarrow> step" where
  "beforeunload h = performCleanup h True"

definition pagehide :: "host \<Rightarrow> step" where
  "pagehide h = performCleanup h True"

section \<open>Timer callbacks\<close>

definition runTask :: "host \<Rightarrow> task \<Rightarrow> step" where
  "runTask h t =
     (case t of
        RestoreSrc i u \<Rightarrow> lift (setSrc i u)
      | StartTracking \<Rightarrow>
          (case arSystemOf h of
             None \<Rightarrow> lift id
           | Some ar \<Rightarrow> call TrackingStart (start ar))
      | DecayErrorCount \<Rightarrow> lift (\<lambda>s. s\<lparr>errorCount := max 0 (errorCount s - 1)\<rparr>))"

section \<open>The event loop\<close>

text \<open>
  The loop starts when \<open>AROptimizer.initialize()\<close> has run. One signal is one task of the
  event loop: an interval tick, an event, the passing of time, or the firing of the
  \<open>k\<close>-th pending timeout. A tick of an interval that was not armed, an \<open>arError\<close>
  without listener and a timeout that is not yet due do nothing.
  An exception that leaves a handler is reported by the host and the loop goes on.
\<close>

datatype signal =
    LightTick
  | FullTick
  | HeapTick nat nat
  | ArError
  | VisibilityChange bool
  | BeforeUnload
  | PageHide
  | Advance nat
  | Fire nat

definition runHandler :: "step \<Rightarrow> state \<Rightarrow> state" where
  "runHandler f s = (case f s of (Normal, s') \<Rightarrow> s' | (Abrupt, s') \<Rightarrow> emit UncaughtError s')"

definition fire :: "host \<Rightarrow> nat \<Rightarrow> state \<Rightarrow> state" where
  "fire h k s =
     (if k < length (timers s) \<and> fst (timers s ! k) \<le> now s then
        runHandler (runTask h (snd (timers s ! k)))
          (s\<lparr>timers := take k (timers s) @ drop (Suc k) (timers s)\<rparr>)
      else s)"

fun dispatch :: "host \<Rightarrow> signal \<Rightarrow> state \<Rightarrow> state" where
  "dispatch h LightTick s = (if armed h LightTimer then runHandler (timerTick h False) s else s)"
| "dispatch h FullTick s = (if armed h FullTimer then runHandler (timerTick h True) s else s)"
| "dispatch h (HeapTick u l) s = (if armed h HeapSampler then runHandler (heapTick h u l) s else s)"
| "dispatch h ArError s = (if snd (initialize h) then runHandler (arErrorHandler h) s else s)"
| "dispatch h (VisibilityChange b) s = runHandler (visibilitychange h) (s\<lparr>hidden := b\<rparr>)"
| "dispatch h BeforeUnload s = runHandler (beforeunload h) s"
| "dispatch h PageHide s = runHandler (pagehide h) s"
| "dispatch h (Advance d) s = s\<lparr>now := now s + d\<rparr>"
| "dispatch h (Fire k) s = fire h k s"

definition run :: "host \<Rightarrow> signal list \<Rightarrow> state \<Rightarrow> state" where
  "run h sigs s = fold (dispatch h) sigs s"

text \<open>The passes started so far: the arguments of the calls of \<open>performCleanup\<close>.\<close>

definition passOf :: "effect \<Rightarrow> bool list" where
  "passOf e = (case e of CleanupCall b \<Rightarrow> [b] | _ \<Rightarrow> [])"

definition passes :: "state \<Rightarrow> bool list" where
  "passes s = concat (map passOf (trace s))"

section \<open>Notions used in the statements\<close>

text \<open>
  The statements speak about the trace of a pass through three notions: which element of
  the page an effect \<open>touches\<close>, the \<open>phase\<close> of \<open>performCleanup\<close> an effect belongs to
  (0 the entry, 1 the video loop, 2 texture disposal, 3 unbinding, 4 the GC hint, 5 the
  stop of the tracking system, 6 the scheduling of its restart; 7 for what only handlers
  and timer callbacks do), and whether some \<open>dispose()\<close> in the texture array throws
  (\<open>disposeThrows\<close>). The remaining definitions of this section are the closed forms of
  the loops, proved equal to the loops below and used in the proofs only.
\<close>

definition touches :: "nat \<Rightarrow> effect \<Rightarrow> bool" where
  "touches i e =
     (case e of
        VideoPause j \<Rightarrow> j = i
      | VideoSeek j t \<Rightarrow> j = i
      | VideoSetSrc j u \<Rightarrow> j = i
      | VideoLoad j \<Rightarrow> j = i
      | SetTimeout (RestoreSrc j u) d \<Rightarrow> j = i
      | _ \<Rightarrow> False)"

definition videoBlock :: "bool \<Rightarrow> nat \<Rightarrow> video \<Rightarrow> effect list" where
  "videoBlock fullCleanup i v =
     (if paused v then []
      else [VideoPause i, VideoSeek i 0] @
        (if fullCleanup then [VideoSetSrc i [], VideoLoad i, SetTimeout (RestoreSrc i (src v)) 100]
         else []))"

definition videoTimers :: "bool \<Rightarrow> nat \<Rightarrow> nat \<Rightarrow> video \<Rightarrow> (nat \<times> task) list" where
  "videoTimers fullCleanup t i v =
     (if \<not> paused v \<and> fullCleanup then [(t + 100, RestoreSrc i (src v))] else [])"

definition cleanedVideo :: "bool \<Rightarrow> video \<Rightarrow> video" where
  "cleanedVideo fullCleanup v =
     (if paused v then v
      else if fullCleanup then v\<lparr>paused := True, currentTime := 0, src := []\<rparr>
      else v\<lparr>paused := True, currentTime := 0\<rparr>)"

fun disposals :: "nat \<Rightarrow> texture list \<Rightarrow> effect list" where
  "disposals i [] = []"
| "disposals i (t # ts) =
     (case t of
        Disposable Returns \<Rightarrow> TextureDispose i # disposals (Suc i) ts
      | Disposable Throws \<Rightarrow> [TextureDispose i]
      | _ \<Rightarrow> disposals (Suc i) ts)"

definition disposeThrows :: "host \<Rightarrow> bool" where
  "disposeThrows h =
     (case scene h of
        None \<Rightarrow> False
      | Some sc \<Rightarrow>
          (case renderer sc of
             None \<Rightarrow> False
           | Some r \<Rightarrow>
               (case textures r of
                  TextureArray ts \<Rightarrow> Disposable Throws \<in> set ts
                | _ \<Rightarrow> False)))"

definition rendererOf :: "host \<Rightarrow> renderer option" where
  "rendererOf h = (case scene h of None \<Rightarrow> None | Some sc \<Rightarrow> renderer sc)"

fun phase :: "effect \<Rightarrow> nat" where
  "phase (CleanupCall b) = 0"
| "phase (VideoPause i) = 1"
| "phase (VideoSeek i t) = 1"
| "phase (VideoSetSrc i u) = 1"
| "phase (VideoLoad i) = 1"
| "phase (SetTimeout (RestoreSrc i u) d) = 1"
| "phase (TextureDispose i) = 2"
| "phase (ActiveTexture u) = 3"
| "phase (Unbind t) = 3"
| "phase GcCall = 4"
| "phase (ConsoleWarn m) = (if m = ''GC not available'' then 4 else 6)"
| "phase TrackingStop = 5"
| "phase (SetTimeout StartTracking d) = 6"
| "phase TrackingStart = 7"
| "phase (SetTimeout DecayErrorCount d) = 7"
| "phase UncaughtError = 7"

definition unbindUnits :: "nat \<Rightarrow> effect list" where
  "unbindUnits n = concat (map (\<lambda>u. [ActiveTexture u, Unbind TEXTURE_2D, Unbind TEXTURE_CUBE_MAP]) [0..<n])"

definition unbindings :: "glContext option \<Rightarrow> effect list" where
  "unbindings g =
     (case g of
        None \<Rightarrow> []
      | Some gl \<Rightarrow> unbindUnits (maxTextureImageUnits gl) @
          [Unbind ARRAY_BUFFER, Unbind ELEMENT_ARRAY_BUFFER, Unbind RENDERBUFFER, Unbind FRAMEBUFFER])"

definition gcEffects :: "outcome option \<Rightarrow> effect list" where
  "gcEffects g =
     (case g of
        None \<Rightarrow> []
      | Some Returns \<Rightarrow> [GcCall]
      | Some Throws \<Rightarrow> [GcCall, ConsoleWarn ''GC not available''])"

definition graphicsEffects :: "host \<Rightarrow> effect list" where
  "graphicsEffects h =
     (case rendererOf h of
        None \<Rightarrow> []
      | Some r \<Rightarrow>
          (case textures r of
             TextureArray ts \<Rightarrow>
               if Disposable Throws \<in> set ts then disposals 0 ts
               else disposals 0 ts @ unbindings (getContext r) @ gcEffects (gc h)
           | _ \<Rightarrow> unbindings (getContext r) @ gcEffects (gc h)))"

definition trackingEffects :: "host \<Rightarrow> bool \<Rightarrow> effect list" where
  "trackingEffects h fullCleanup =
     (case arSystemOf h of
        None \<Rightarrow> []
      | Some ar \<Rightarrow>
          if fullCleanup then
            (case stop ar of
               Returns \<Rightarrow> [TrackingStop, SetTimeout StartTracking 1000]
             | Throws \<Rightarrow> [TrackingStop, ConsoleWarn ''AR system cleanup error:''])
          else [])"

definition trackingTimers :: "host \<Rightarrow> bool \<Rightarrow> nat \<Rightarrow> (nat \<times> task) list" where
  "trackingTimers h fullCleanup t =
     (case arSystemOf h of
        None \<Rightarrow> []
      | Some ar \<Rightarrow> if fullCleanup \<and> stop ar = Returns then [(t + 1000, StartTracking)] else [])"

definition mediaEffects :: "bool \<Rightarrow> video list \<Rightarrow> effect list" where
  "mediaEffects fullCleanup vs = concat (map (\<lambda>i. videoBlock fullCleanup i (vs ! i)) [0..<length vs])"

definition mediaTimers :: "bool \<Rightarrow> nat \<Rightarrow> video list \<Rightarrow> (nat \<times> task) list" where
  "mediaTimers fullCleanup t vs = concat (map (\<lambda>i. videoTimers fullCleanup t i (vs ! i)) [0..<length vs])"

section \<open>Concrete pages\<close>

text \<open>
  A playing and a paused element; a page where every collaborator is present and returns;
  and pages where one collaborator is missing or throws.
\<close>

definition clip :: video where
  "clip = \<lparr>paused = False, currentTime = 42, src = ''book.mp4''\<rparr>"

definition still :: video where
  "still = \<lparr>paused = True, currentTime = 7, src = ''cover.mp4''\<rparr>"

definition hostOk :: host where
  "hostOk = \<lparr>scene = Some \<lparr>renderer = Some \<lparr>getContext = Some \<lparr>maxTextureImageUnits = 2\<rparr>,
       textures = TextureArray [Disposable Returns, NoDispose]\<rparr>,
     mindar = Some \<lparr>stop = Returns, start = Returns\<rparr>\<rparr>, gc = Some Returns, memory = True\<rparr>"

definition hostBadTexture :: host where
  "hostBadTexture = \<lparr>scene = Some \<lparr>renderer = Some \<lparr>getContext = Some \<lparr>maxTextureImageUnits = 2\<rparr>,
       textures = TextureArray [Disposable Throws, Disposable Returns]\<rparr>,
     mindar = Some \<lparr>stop = Returns, start = Returns\<rparr>\<rparr>, gc = Some Returns, memory = True\<rparr>"

definition hostNoRenderer :: host where
  "hostNoRenderer = \<lparr>scene = Some \<lparr>renderer = None, mindar = None\<rparr>, gc = Some Returns, memory = False\<rparr>"

definition hostBadStart :: host where
  "hostBadStart = \<lparr>scene = Some \<lparr>renderer = Some \<lparr>getContext = None, textures = NotArray\<rparr>,
       mindar = Some \<lparr>stop = Returns, start = Throws\<rparr>\<rparr>,
     gc = None, memory = False\<rparr>"

definition hostBadStop :: host where
  "hostBadStop = \<lparr>scene = Some \<lparr>renderer = Some \<lparr>getContext = None, textures = NotArray\<rparr>,
       mindar = Some \<lparr>stop = Throws, start = Returns\<rparr>\<rparr>,
     gc = Some Throws, memory = False\<rparr>"

section \<open>The loops in closed form\<close>

lemma emit_simps [simp]:
  "trace (emit e s) = trace s @ [e]" "videos (emit e s) = videos s"
  "timers (emit e s) = timers s" "errorCount (emit e s) = errorCount s"
  "isProcessing (emit e s) = isProcessing s" "hidden (emit e s) = hidden s"
  "now (emit e s) = now s"
  by (simp_all add: emit_def)

lemma setTimeout_simps [simp]:
  "trace (setTimeout t d s) = trace s @ [SetTimeout t d]" "videos (setTimeout t d s) = videos s"
  "timers (setTimeout t d s) = timers s @ [(now s + d, t)]"
  "errorCount (setTimeout t d s) = errorCount s"
  "isProcessing (setTimeout t d s) = isProcessing s" "hidden (setTimeout t d s) = hidden s"
  "now (setTimeout t d s) = now s"
  by (simp_all add: setTimeout_def)

lemma cleanVideo_fields [simp]:
  "errorCount (cleanVideo f i s) = errorCount s"
  "isProcessing (cleanVideo f i s) = isProcessing s"
  "hidden (cleanVideo f i s) = hidden s"
  "now (cleanVideo f i s) = now s"
  "length (videos (cleanVideo f i s)) = length (videos s)"
  by (simp_all add: cleanVideo_def Let_def pauseVideo_def seekVideo_def setSrc_def loadVideo_def)

lemma cleanVideo_trace:
  "i < length (videos s) \<Longrightarrow> trace (cleanVideo f i s) = trace s @ videoBlock f i (videos s ! i)"
  by (simp add: cleanVideo_def Let_def pauseVideo_def seekVideo_def setSrc_def loadVideo_def videoBlock_def)

lemma cleanVideo_timers:
  "i < length (videos s) \<Longrightarrow> timers (cleanVideo f i s) = timers s @ videoTimers f (now s) i (videos s ! i)"
  by (simp add: cleanVideo_def Let_def pauseVideo_def seekVideo_def setSrc_def loadVideo_def videoTimers_def)

lemma cleanVideo_videos:
  "i < length (videos s) \<Longrightarrow> videos (cleanVideo f i s) = (videos s)[i := cleanedVideo f (videos s ! i)]"
  by (simp add: cleanVideo_def Let_def pauseVideo_def seekVideo_def setSrc_def loadVideo_def cleanedVideo_def)

lemma fold_cleanVideo:
  "n \<le> length (videos s) \<Longrightarrow>
   errorCount (fold (cleanVideo f) [0..<n] s) = errorCount s \<and>
   isProcessing (fold (cleanVideo f) [0..<n] s) = isProcessing s \<and>
   hidden (fold (cleanVideo f) [0..<n] s) = hidden s \<and>
   now (fold (cleanVideo f) [0..<n] s) = now s \<and>
   videos (fold (cleanVideo f) [0..<n] s) = map (cleanedVideo f) (take n (videos s)) @ drop n (videos s) \<and>
   trace (fold (cleanVideo f) [0..<n] s) = trace s @ concat (map (\<lambda>i. videoBlock f i (videos s ! i)) [0..<n]) \<and>
   timers (fold (cleanVideo f) [0..<n] s) = timers s @ concat (map (\<lambda>i. videoTimers f (now s) i (videos s ! i)) [0..<n])"
proof (induction n)
  case 0
  then show ?case by simp
next
  case (Suc n)
  let ?s = "fold (cleanVideo f) [0..<n] s"
  from Suc have IH: "videos ?s = map (cleanedVideo f) (take n (videos s)) @ drop n (videos s)"
    and n: "n < length (videos s)" by simp_all
  have len: "n < length (videos ?s)" using IH n by simp
  have nth: "videos ?s ! n = videos s ! n" using IH n by (simp add: nth_append)
  have upd: "(videos ?s)[n := cleanedVideo f (videos s ! n)] =
             map (cleanedVideo f) (take (Suc n) (videos s)) @ drop (Suc n) (videos s)"
    using n by (simp add: IH take_Suc_conv_app_nth list_update_append Cons_nth_drop_Suc [symmetric])
  show ?case using Suc n len nth upd
    by (simp add: cleanVideo_trace cleanVideo_timers cleanVideo_videos)
qed

lemma disposeFrom_eq:
  "disposeFrom i ts s =
     (if Disposable Throws \<in> set ts then Abrupt else Normal, s\<lparr>trace := trace s @ disposals i ts\<rparr>)"
proof (induction ts arbitrary: i s)
  case Nil
  then show ?case by (simp add: lift_def)
next
  case (Cons t ts)
  show ?case
  proof (cases t)
    case NullTexture
    with Cons show ?thesis by (simp add: andThen_def disposeTexture_def lift_def)
  next
    case NoDispose
    with Cons show ?thesis by (simp add: andThen_def disposeTexture_def lift_def)
  next
    case (Disposable oc)
    with Cons show ?thesis
      by (cases oc) (simp_all add: andThen_def disposeTexture_def call_def emit_def)
  qed
qed

lemma phase_disposals: "e \<in> set (disposals i ts) \<Longrightarrow> phase e = 2"
proof (induction ts arbitrary: i)
  case Nil
  then show ?case by simp
next
  case (Cons t ts)
  then show ?case
    by (auto split: texture.splits outcome.splits)
qed

lemma fold_unbindUnit:
  "fold unbindUnit [0..<n] s = s\<lparr>trace := trace s @ unbindUnits n\<rparr>"
  by (induction n) (simp_all add: unbindUnits_def unbindUnit_def emit_def)

lemma phase_unbindUnits: "e \<in> set (unbindUnits n) \<Longrightarrow> phase e = 3"
  by (auto simp: unbindUnits_def)

lemma unbindAll_eq: "unbindAll g s = s\<lparr>trace := trace s @ unbindings g\<rparr>"
  by (cases g) (simp_all add: unbindAll_def unbindings_def fold_unbindUnit emit_def)

lemma phase_unbindings: "e \<in> set (unbindings g) \<Longrightarrow> phase e = 3"
  by (cases g) (auto simp: unbindings_def dest: phase_unbindUnits)

lemma gcHint_eq: "gcHint g s = (Normal, s\<lparr>trace := trace s @ gcEffects g\<rparr>)"
  by (simp add: gcHint_def gcEffects_def tryCatch_def call_def lift_def emit_def
      split: option.splits outcome.splits)

lemma cleanGraphics_eq:
  "cleanGraphics h s =
     (if disposeThrows h then Abrupt else Normal, s\<lparr>trace := trace s @ graphicsEffects h\<rparr>)"
  by (simp add: cleanGraphics_def graphicsEffects_def rendererOf_def disposeThrows_def
      disposeTextures_def andThen_def lift_def disposeFrom_eq unbindAll_eq gcHint_eq
      split: option.splits registry.splits)

lemma restartTracking_eq:
  "restartTracking h f s =
     (Normal, s\<lparr>timers := timers s @ trackingTimers h f (now s),
                trace := trace s @ trackingEffects h f\<rparr>)"
  by (simp add: restartTracking_def trackingEffects_def trackingTimers_def tryCatch_def
      andThen_def call_def lift_def emit_def setTimeout_def
      split: option.splits outcome.splits)

lemma cleanVideos_eq:
  "cleanVideos f s =
     s\<lparr>videos := map (cleanedVideo f) (videos s),
       timers := timers s @ mediaTimers f (now s) (videos s),
       trace := trace s @ mediaEffects f (videos s)\<rparr>"
  using fold_cleanVideo [of "length (videos s)" s f]
  by (simp add: cleanVideos_def mediaEffects_def mediaTimers_def)

lemma performCleanup_eq:
  "performCleanup h f s =
     (if disposeThrows h then Abrupt else Normal,
      s\<lparr>videos := map (cleanedVideo f) (videos s),
        timers := timers s @ mediaTimers f (now s) (videos s) @
          (if disposeThrows h then [] else trackingTimers h f (now s)),
        trace := trace s @ CleanupCall f # mediaEffects f (videos s) @ graphicsEffects h @
          (if disposeThrows h then [] else trackingEffects h f)\<rparr>)"
  by (simp add: performCleanup_def andThen_def lift_def cleanVideos_eq cleanGraphics_eq
      restartTracking_eq emit_def)

lemma touches_phase: "touches i e \<Longrightarrow> phase e = 1"
  by (cases e) (auto simp: touches_def split: task.splits)

lemma phase_videoBlock: "e \<in> set (videoBlock f i v) \<Longrightarrow> phase e = 1"
  by (auto simp: videoBlock_def split: if_splits)

lemma phase_mediaEffects: "e \<in> set (mediaEffects f vs) \<Longrightarrow> phase e = 1"
  by (auto simp: mediaEffects_def dest: phase_videoBlock)

lemma phase_gcEffects: "e \<in> set (gcEffects g) \<Longrightarrow> phase e = 4"
proof (cases g)
  case None
  then show "e \<in> set (gcEffects g) \<Longrightarrow> phase e = 4" by (simp add: gcEffects_def)
next
  case (Some oc)
  then show "e \<in> set (gcEffects g) \<Longrightarrow> phase e = 4"
    by (cases oc) (auto simp: gcEffects_def)
qed

lemma sorted_same_phase: "(\<And>e. e \<in> set es \<Longrightarrow> phase e = k) \<Longrightarrow> sorted (map phase es)"
  by (induction es) auto

lemma sorted_graphicsEffects: "sorted (map phase (graphicsEffects h))"
  by (auto simp: graphicsEffects_def sorted_append sorted_same_phase [where k = 2]
      sorted_same_phase [where k = 3] sorted_same_phase [where k = 4]
      phase_disposals phase_unbindings phase_gcEffects
      split: option.splits registry.splits)

lemma phase_graphicsEffects:
  assumes "e \<in> set (graphicsEffects h)"
  shows "2 \<le> phase e \<and> phase e \<le> 4"
proof (cases "rendererOf h")
  case None
  with assms show ?thesis by (simp add: graphicsEffects_def)
next
  case (Some r)
  with assms have "e \<in> set (disposals 0 (case textures r of TextureArray ts \<Rightarrow> ts | _ \<Rightarrow> []))
      \<or> e \<in> set (unbindings (getContext r)) \<or> e \<in> set (gcEffects (gc h))"
    by (cases "textures r") (auto simp: graphicsEffects_def split: if_splits)
  then show ?thesis
    using phase_disposals phase_unbindings phase_gcEffects by fastforce
qed

lemma phase_trackingEffects:
  assumes "e \<in> set (trackingEffects h f)"
  shows "5 \<le> phase e \<and> phase e \<le> 6"
proof (cases "arSystemOf h")
  case None
  with assms show ?thesis by (simp add: trackingEffects_def)
next
  case (Some ar)
  with assms show ?thesis
    by (cases "stop ar") (auto simp: trackingEffects_def split: if_splits)
qed

lemma sorted_trackingEffects: "sorted (map phase (trackingEffects h f))"
  by (auto simp: trackingEffects_def split: option.splits outcome.splits)

lemma sorted_cleanup_effects:
  "sorted (map phase (CleanupCall f # mediaEffects f vs @ graphicsEffects h @ trackingEffects h f))"
  by (auto simp: sorted_append sorted_graphicsEffects sorted_trackingEffects
       sorted_same_phase [where k = 1] phase_mediaEffects
      dest!: phase_mediaEffects phase_graphicsEffects phase_trackingEffects)

lemma sorted_cleanup_effects_abrupt:
  "sorted (map phase (CleanupCall f # mediaEffects f vs @ graphicsEffects h))"
  using sorted_cleanup_effects [of f vs h]
  by (simp add: sorted_append)

lemma filter_touches_videoBlock:
  "filter (touches i) (videoBlock f j v) = (if i = j then videoBlock f j v else [])"
  by (simp add: videoBlock_def touches_def)

lemma filter_touches_blocks:
  "filter (touches i) (concat (map (\<lambda>j. videoBlock f j (vs ! j)) [0..<n])) =
     (if i < n then videoBlock f i (vs ! i) else [])"
  by (induction n) (auto simp: filter_touches_videoBlock)

lemma filter_touches_mediaEffects:
  "filter (touches i) (mediaEffects f vs) = (if i < length vs then videoBlock f i (vs ! i) else [])"
  by (simp add: mediaEffects_def filter_touches_blocks)

lemma filter_touches_other:
  "(\<And>e. e \<in> set es \<Longrightarrow> phase e \<noteq> 1) \<Longrightarrow> filter (touches i) es = []"
  by (auto simp: filter_empty_conv dest: touches_phase)

lemma filter_touches_graphics: "filter (touches i) (graphicsEffects h) = []"
  by (rule filter_touches_other) (auto dest: phase_graphicsEffects)

lemma filter_touches_tracking: "filter (touches i) (trackingEffects h f) = []"
  by (rule filter_touches_other) (auto dest: phase_trackingEffects)

lemma no_passes: "(\<And>e. e \<in> set es \<Longrightarrow> 0 < phase e) \<Longrightarrow> concat (map passOf es) = []"
proof (induction es)
  case Nil
  then show ?case by simp
next
  case (Cons e es)
  from Cons.prems [of e] have "passOf e = []" by (cases e) (simp_all add: passOf_def)
  with Cons show ?case by simp
qed

lemma performCleanup_fields:
  assumes "performCleanup h f s = (c, s')"
  shows "errorCount s' = errorCount s" "isProcessing s' = isProcessing s"
    "hidden s' = hidden s" "now s' = now s"
    "passes s' = passes s @ [f]"
    "c = (if disposeThrows h then Abrupt else Normal)"
proof -
  have "concat (map passOf
          (mediaEffects f (videos s) @ graphicsEffects h @ (if disposeThrows h then [] else trackingEffects h f))) = []"
    by (rule no_passes) (auto dest: phase_mediaEffects phase_graphicsEffects phase_trackingEffects split: if_splits)
  then show "passes s' = passes s @ [f]"
    using assms by (auto simp: performCleanup_eq passes_def passOf_def)
qed (use assms in \<open>auto simp: performCleanup_eq\<close>)

lemma mediaTimers_mem:
  "(d, t) \<in> set (mediaTimers f now0 vs) \<longleftrightarrow>
     (\<exists>i<length vs. \<not> paused (vs ! i) \<and> f \<and> d = now0 + 100 \<and> t = RestoreSrc i (src (vs ! i)))"
  by (auto simp: mediaTimers_def videoTimers_def)

lemma trackingTimers_mem:
  "(d, t) \<in> set (trackingTimers h f now0) \<longleftrightarrow>
     (\<exists>ar. arSystemOf h = Some ar \<and> f \<and> stop ar = Returns \<and> d = now0 + 1000 \<and> t = StartTracking)"
  by (cases "arSystemOf h") (auto simp: trackingTimers_def)

lemma cleanedVideo_paused: "paused v \<Longrightarrow> cleanedVideo f v = v"
  by (simp add: cleanedVideo_def)

section \<open>What the handlers do to the coordinator state\<close>

lemma passes_emit: "passes (emit e s) = passes s @ passOf e"
  by (simp add: passes_def)

lemma runHandler_cleanup:
  "passes (runHandler (performCleanup h f) s) = passes s @ [f]"
  "errorCount (runHandler (performCleanup h f) s) = errorCount s"
  "isProcessing (runHandler (performCleanup h f) s) = isProcessing s"
proof -
  obtain c s' where eq: "performCleanup h f s = (c, s')" by force
  from performCleanup_fields [OF eq]
  show "passes (runHandler (performCleanup h f) s) = passes s @ [f]"
    "errorCount (runHandler (performCleanup h f) s) = errorCount s"
    "isProcessing (runHandler (performCleanup h f) s) = isProcessing s"
    by (cases c; simp add: runHandler_def eq passes_emit passOf_def)+
qed

lemma guardedCleanup_fields:
  assumes "guardedCleanup h f s = (c, s')"
  shows "passes s' = passes s @ [f]" "errorCount s' = errorCount s"
    "isProcessing s' = (c = Abrupt)" "c = (if disposeThrows h then Abrupt else Normal)"
proof -
  obtain c0 s0 where eq: "performCleanup h f (s\<lparr>isProcessing := True\<rparr>) = (c0, s0)" by force
  from performCleanup_fields [OF eq] assms
  show "passes s' = passes s @ [f]" "errorCount s' = errorCount s"
    "isProcessing s' = (c = Abrupt)" "c = (if disposeThrows h then Abrupt else Normal)"
    by (cases c0; auto simp: guardedCleanup_def eq passes_def)+
qed

lemma runHandler_guarded:
  "passes (runHandler (guardedCleanup h f) s) = passes s @ [f]"
  "errorCount (runHandler (guardedCleanup h f) s) = errorCount s"
  "isProcessing (runHandler (guardedCleanup h f) s) = disposeThrows h"
proof -
  obtain c s' where eq: "guardedCleanup h f s = (c, s')" by force
  from guardedCleanup_fields [OF eq]
  show "passes (runHandler (guardedCleanup h f) s) = passes s @ [f]"
    "errorCount (runHandler (guardedCleanup h f) s) = errorCount s"
    "isProcessing (runHandler (guardedCleanup h f) s) = disposeThrows h"
    by (cases c; simp add: runHandler_def eq passes_emit passOf_def split: if_splits)+
qed

lemma passes_setTimeout: "passes (setTimeout t d s) = passes s"
  by (simp add: passes_def passOf_def)

lemma passes_errorCount_update: "passes (s\<lparr>errorCount := n\<rparr>) = passes s"
  by (simp add: passes_def)

lemma arErrorHandler_fields:
  assumes "arErrorHandler h s = (c, s')"
  shows "passes s' = passes s @ [3 < errorCount s + 1]"
    "errorCount s' = (if c = Normal \<and> 3 < errorCount s + 1 then 0 else errorCount s + 1)"
    "c = (if disposeThrows h then Abrupt else Normal)"
    "isProcessing s' = isProcessing s"
    "c = Normal \<Longrightarrow> \<exists>ts. timers s' = timers s @ ts @ [(now s + 300000, DecayErrorCount)]"
proof -
  define full where "full = (3 < errorCount s + 1)"
  define s1 where "s1 = s\<lparr>errorCount := errorCount s + 1\<rparr>"
  obtain c0 s0 where eq: "performCleanup h full s1 = (c0, s0)"
    by force
  have handler: "arErrorHandler h s =
      (case c0 of
         Normal \<Rightarrow> (Normal, setTimeout DecayErrorCount 300000 (if full then s0\<lparr>errorCount := 0\<rparr> else s0))
       | Abrupt \<Rightarrow> (Abrupt, s0))"
    using eq unfolding full_def s1_def
    by (cases c0) (auto simp: arErrorHandler_def Let_def andThen_def lift_def)
  note f = performCleanup_fields [OF eq]
  have s1: "passes s1 = passes s" "errorCount s1 = errorCount s + 1" "isProcessing s1 = isProcessing s"
    "timers s1 = timers s" "now s1 = now s"
    by (simp_all add: s1_def passes_def)
  have c: "c = c0" using assms handler by (cases c0) simp_all
  show "passes s' = passes s @ [3 < errorCount s + 1]"
    using assms handler f(5) s1(1)
    by (cases c0) (auto simp: passes_setTimeout passes_errorCount_update full_def)
  show "errorCount s' = (if c = Normal \<and> 3 < errorCount s + 1 then 0 else errorCount s + 1)"
    using assms handler f(1) s1(2) c
    by (cases c0) (auto simp: full_def)
  show "c = (if disposeThrows h then Abrupt else Normal)"
    using f(6) c by simp
  show "isProcessing s' = isProcessing s"
    using assms handler f(2) s1(3)
    by (cases c0; cases full) auto
  assume "c = Normal"
  with c assms handler have s': "s' = setTimeout DecayErrorCount 300000
             (if full then s0\<lparr>errorCount := 0\<rparr> else s0)"
    by simp
  from eq have "timers s0 = timers s1 @ (mediaTimers full (now s1) (videos s1) @
          (if disposeThrows h then [] else trackingTimers h full (now s1)))"
    and "now s0 = now s1"
    by (auto simp: performCleanup_eq)
  then show "\<exists>ts. timers s' = timers s @ ts @ [(now s + 300000, DecayErrorCount)]"
    by (simp add: s' s1)
qed

lemma armed_simps [simp]:
  "armed h LightTimer" "armed h FullTimer" "armed h HeapSampler = memory h"
  by (auto simp: armed_def initialize_def setupAutoCleanup_def setupMemoryMonitoring_def)

lemma disposeThrows_hostBadTexture: "disposeThrows hostBadTexture"
  by (simp add: disposeThrows_def hostBadTexture_def)

lemma disposeThrows_hostOk: "\<not> disposeThrows hostOk"
  by (simp add: disposeThrows_def hostOk_def)

lemma tick_dropped:
  "isProcessing s \<Longrightarrow> runHandler (timerTick h f) s = s"
  "isProcessing s \<Longrightarrow> runHandler (heapTick h u l) s = s"
  by (simp_all add: runHandler_def timerTick_def heapTick_def)

lemma tick_accepted:
  "\<not> hidden s \<Longrightarrow> \<not> isProcessing s \<Longrightarrow> runHandler (timerTick h f) s = runHandler (guardedCleanup h f) s"
  by (simp add: runHandler_def timerTick_def)

lemma runHandler_arError:
  "passes (runHandler (arErrorHandler h) s) = passes s @ [3 < errorCount s + 1]"
  "errorCount (runHandler (arErrorHandler h) s) =
     (if \<not> disposeThrows h \<and> 3 < errorCount s + 1 then 0 else errorCount s + 1)"
  "isProcessing (runHandler (arErrorHandler h) s) = isProcessing s"
proof -
  obtain c s' where eq: "arErrorHandler h s = (c, s')" by force
  note f = arErrorHandler_fields [OF eq]
  show "passes (runHandler (arErrorHandler h) s) = passes s @ [3 < errorCount s + 1]"
    using f(1) by (cases c) (simp_all add: runHandler_def eq passes_emit passOf_def)
  show "errorCount (runHandler (arErrorHandler h) s) =
     (if \<not> disposeThrows h \<and> 3 < errorCount s + 1 then 0 else errorCount s + 1)"
    using f(2,3) by (cases c) (auto simp: runHandler_def eq split: if_splits)
  show "isProcessing (runHandler (arErrorHandler h) s) = isProcessing s"
    using f(4) by (cases c) (simp_all add: runHandler_def eq)
qed

lemma initial_fields [simp]:
  "\<not> hidden (initial vs)" "\<not> isProcessing (initial vs)" "passes (initial vs) = []"
  "errorCount (initial vs) = 0" "timers (initial vs) = []" "now (initial vs) = 0"
  "videos (initial vs) = vs" "trace (initial vs) = []"
  by (simp_all add: initial_def passes_def)

lemma listener_hostOk: "snd (initialize hostOk)"
  by (simp add: initialize_def setupErrorHandling_def hostOk_def)

lemma listener_hostBadTexture: "snd (initialize hostBadTexture)"
  by (simp add: initialize_def setupErrorHandling_def hostBadTexture_def)

lemma errorCount_setSrc [simp]: "errorCount (setSrc i u s) = errorCount s"
  by (simp add: setSrc_def)

lemma errorCount_runTask:
  "errorCount (runHandler (runTask h t) s) =
     (if t = DecayErrorCount then max 0 (errorCount s - 1) else errorCount s)"
proof (cases t)
  case (RestoreSrc i u)
  then show ?thesis by (simp add: runHandler_def runTask_def lift_def)
next
  case StartTracking
  show ?thesis
  proof (cases "arSystemOf h")
    case None
    with StartTracking show ?thesis by (simp add: runHandler_def runTask_def lift_def)
  next
    case (Some ar)
    with StartTracking show ?thesis
      by (cases "start ar") (simp_all add: runHandler_def runTask_def call_def)
  qed
next
  case DecayErrorCount
  then show ?thesis by (simp add: runHandler_def runTask_def lift_def)
qed

lemma errorCount_fire:
  "errorCount (fire h k s) =
     (if k < length (timers s) \<and> fst (timers s ! k) \<le> now s \<and> snd (timers s ! k) = DecayErrorCount
      then max 0 (errorCount s - 1) else errorCount s)"
  by (simp add: fire_def errorCount_runTask)

lemma errorCount_tick:
  "errorCount (runHandler (timerTick h f) s) = errorCount s"
  "errorCount (runHandler (heapTick h u l) s) = errorCount s"
proof -
  have g: "errorCount (runHandler (guardedCleanup h f') s) = errorCount s" for f'
    by (rule runHandler_guarded)
  have n: "runHandler (\<lambda>s. (Normal, s)) s = s"
    by (simp add: runHandler_def)
  show "errorCount (runHandler (timerTick h f) s) = errorCount s"
    using g [of f] by (cases "\<not> hidden s \<and> \<not> isProcessing s") (auto simp: timerTick_def runHandler_def)
  show "errorCount (runHandler (heapTick h u l) s) = errorCount s"
    using g [of True]
    by (cases "overThreshold u l \<and> \<not> isProcessing s") (auto simp: heapTick_def runHandler_def)
qed

lemma errorCount_dispatch: "0 \<le> errorCount s \<Longrightarrow> 0 \<le> errorCount (dispatch h sig s)"
proof (cases sig)
  case (VisibilityChange b)
  assume "0 \<le> errorCount s"
  moreover have "errorCount (runHandler (visibilitychange h) (s\<lparr>hidden := b\<rparr>)) = errorCount s"
    using runHandler_cleanup(2) [of h True "s\<lparr>hidden := b\<rparr>"]
    by (cases b) (simp_all add: visibilitychange_def runHandler_def)
  ultimately show ?thesis using VisibilityChange by simp
qed (auto simp: errorCount_tick runHandler_arError errorCount_fire runHandler_cleanup
      beforeunload_def pagehide_def)

lemma errorCount_run: "0 \<le> errorCount s \<Longrightarrow> 0 \<le> errorCount (run h sigs s)"
  unfolding run_def
  by (induction sigs arbitrary: s) (simp_all add: errorCount_dispatch)

lemma arSystemOf_hostOk: "arSystemOf hostOk = Some \<lparr>stop = Returns, start = Returns\<rparr>"
  by (simp add: arSystemOf_def hostOk_def)

lemma runHandler_heapTick:
  "runHandler (heapTick h u l) s =
     (if overThreshold u l \<and> \<not> isProcessing s then runHandler (guardedCleanup h True) s else s)"
  by (simp add: heapTick_def runHandler_def)

section \<open>Which effects a pass contains\<close>

lemma performCleanup_trace:
  "performCleanup h f s = (c, s') \<Longrightarrow>
     trace s' = trace s @ CleanupCall f # mediaEffects f (videos s) @ graphicsEffects h @
        (if disposeThrows h then [] else trackingEffects h f)"
  by (auto simp: performCleanup_eq)

lemma performCleanup_timers:
  "performCleanup h f s = (c, s') \<Longrightarrow>
     timers s' = timers s @ mediaTimers f (now s) (videos s) @
        (if disposeThrows h then [] else trackingTimers h f (now s))"
  by (auto simp: performCleanup_eq)

lemma graphicsEffects_abrupt:
  "disposeThrows h \<Longrightarrow> e \<in> set (graphicsEffects h) \<Longrightarrow> phase e = 2"
  by (auto simp: disposeThrows_def graphicsEffects_def rendererOf_def
      split: option.splits registry.splits dest: phase_disposals)

lemma GcCall_disposals: "GcCall \<notin> set (disposals i ts)"
  using phase_disposals [of GcCall i ts] by auto

lemma GcCall_unbindings: "GcCall \<notin> set (unbindings g)"
  using phase_unbindings [of GcCall g] by auto

lemma GcCall_gcEffects: "GcCall \<in> set (gcEffects g) \<longleftrightarrow> g \<noteq> None"
proof (cases g)
  case None
  then show ?thesis by (simp add: gcEffects_def)
next
  case (Some oc)
  then show ?thesis by (cases oc) (simp_all add: gcEffects_def)
qed

lemma warn_gcEffects: "ConsoleWarn ''GC not available'' \<in> set (gcEffects g) \<longleftrightarrow> g = Some Throws"
proof (cases g)
  case None
  then show ?thesis by (simp add: gcEffects_def)
next
  case (Some oc)
  then show ?thesis by (cases oc) (simp_all add: gcEffects_def)
qed

lemma warn_disposals: "ConsoleWarn m \<notin> set (disposals i ts)"
  using phase_disposals [of "ConsoleWarn m" i ts] by (auto split: if_splits)

lemma warn_unbindings: "ConsoleWarn m \<notin> set (unbindings g)"
  using phase_unbindings [of "ConsoleWarn m" g] by (auto split: if_splits)

lemma GcCall_graphicsEffects:
  "GcCall \<in> set (graphicsEffects h) \<longleftrightarrow> rendererOf h \<noteq> None \<and> \<not> disposeThrows h \<and> gc h \<noteq> None"
proof (cases "rendererOf h")
  case None
  then show ?thesis by (simp add: graphicsEffects_def)
next
  case (Some r)
  then show ?thesis
    by (cases "textures r")
      (auto simp: graphicsEffects_def disposeThrows_def rendererOf_def GcCall_disposals
        GcCall_unbindings GcCall_gcEffects split: option.splits)
qed

lemma warn_graphicsEffects:
  "ConsoleWarn ''GC not available'' \<in> set (graphicsEffects h) \<longleftrightarrow>
     rendererOf h \<noteq> None \<and> \<not> disposeThrows h \<and> gc h = Some Throws"
proof (cases "rendererOf h")
  case None
  then show ?thesis by (simp add: graphicsEffects_def)
next
  case (Some r)
  then show ?thesis
    by (cases "textures r")
      (auto simp: graphicsEffects_def disposeThrows_def rendererOf_def warn_disposals
        warn_unbindings warn_gcEffects split: option.splits)
qed

lemma not_phase_4:
  "phase e \<noteq> 4 \<Longrightarrow> e \<noteq> GcCall \<and> e \<noteq> ConsoleWarn ''GC not available''"
  by auto

lemma gc_only_in_graphics:
  "GcCall \<notin> set (mediaEffects f vs)" "GcCall \<notin> set (trackingEffects h f)"
  "ConsoleWarn ''GC not available'' \<notin> set (mediaEffects f vs)"
  "ConsoleWarn ''GC not available'' \<notin> set (trackingEffects h f)"
  using phase_mediaEffects [of GcCall f vs] phase_trackingEffects [of GcCall h f]
    phase_mediaEffects [of "ConsoleWarn ''GC not available''" f vs]
    phase_trackingEffects [of "ConsoleWarn ''GC not available''" h f]
  by auto

lemma TrackingStop_trackingEffects:
  "TrackingStop \<in> set (trackingEffects h f) \<longleftrightarrow> f \<and> arSystemOf h \<noteq> None"
proof (cases "arSystemOf h")
  case None
  then show ?thesis by (simp add: trackingEffects_def)
next
  case (Some ar)
  then show ?thesis by (cases "stop ar") (simp_all add: trackingEffects_def)
qed

lemma warn_trackingEffects:
  "ConsoleWarn ''AR system cleanup error:'' \<in> set (trackingEffects h f) \<longleftrightarrow>
     f \<and> (\<exists>ar. arSystemOf h = Some ar \<and> stop ar = Throws)"
proof (cases "arSystemOf h")
  case None
  then show ?thesis by (simp add: trackingEffects_def)
next
  case (Some ar)
  then show ?thesis by (cases "stop ar") (simp_all add: trackingEffects_def)
qed

lemma disposals_mem:
  "Disposable Throws \<notin> set ts \<Longrightarrow> j < length ts \<Longrightarrow> ts ! j = Disposable oc \<Longrightarrow>
     TextureDispose (i + j) \<in> set (disposals i ts)"
proof (induction ts arbitrary: i j)
  case Nil
  then show ?case by simp
next
  case (Cons t ts)
  show ?case
  proof (cases j)
    case 0
    with Cons.prems show ?thesis by (cases oc) auto
  next
    case (Suc j')
    with Cons.prems have "TextureDispose (Suc i + j') \<in> set (disposals (Suc i) ts)"
      by (intro Cons.IH) auto
    with Suc Cons.prems show ?thesis
      by (auto split: texture.splits outcome.splits)
  qed
qed

lemma unbindings_mem:
  "e \<in> set (unbindings (Some gl)) \<longleftrightarrow>
     (\<exists>u<maxTextureImageUnits gl. e = ActiveTexture u) \<or>
     (0 < maxTextureImageUnits gl \<and> e \<in> {Unbind TEXTURE_2D, Unbind TEXTURE_CUBE_MAP}) \<or>
     e \<in> {Unbind ARRAY_BUFFER, Unbind ELEMENT_ARRAY_BUFFER, Unbind RENDERBUFFER, Unbind FRAMEBUFFER}"
  by (auto simp: unbindings_def unbindUnits_def)

lemma graphicsEffects_normal:
  assumes "\<not> disposeThrows h" "rendererOf h = Some r"
  shows "set (graphicsEffects h) =
    set (disposals 0 (case textures r of TextureArray ts \<Rightarrow> ts | _ \<Rightarrow> [])) \<union>
    set (unbindings (getContext r)) \<union> set (gcEffects (gc h))"
  using assms
  by (cases "textures r") (auto simp: graphicsEffects_def disposeThrows_def rendererOf_def
      split: option.splits)

lemma trackingEffects_mem:
  "arSystemOf h = Some ar \<Longrightarrow>
     TrackingStop \<in> set (trackingEffects h True) \<and>
     (stop ar = Returns \<longrightarrow> SetTimeout StartTracking 1000 \<in> set (trackingEffects h True))"
  by (cases "stop ar") (simp_all add: trackingEffects_def)

lemma fire_not_due: "k < length (timers s) \<Longrightarrow> now s < fst (timers s ! k) \<Longrightarrow> fire h k s = s"
  by (simp add: fire_def)

lemma due_mediaTimers: "k < length (mediaTimers True t vs) \<Longrightarrow>
    fst (mediaTimers True t vs ! k) = t + 100 \<and> snd (mediaTimers True t vs ! k) \<noteq> StartTracking"
  using mediaTimers_mem [of "fst (mediaTimers True t vs ! k)" "snd (mediaTimers True t vs ! k)" True t vs]
    nth_mem [of k "mediaTimers True t vs"]
  by auto

lemma due_trackingTimers: "k < length (trackingTimers h True t) \<Longrightarrow>
    trackingTimers h True t ! k = (t + 1000, StartTracking)"
  using trackingTimers_mem [of "fst (trackingTimers h True t ! k)" "snd (trackingTimers h True t ! k)" h True t]
    nth_mem [of k "trackingTimers h True t"]
  by (auto simp: prod_eq_iff)

section \<open>What one signal does to the passes and to the guard\<close>

lemma runHandler_timerTick:
  "runHandler (timerTick h f) s =
     (if \<not> hidden s \<and> \<not> isProcessing s then runHandler (guardedCleanup h f) s else s)"
  by (simp add: timerTick_def runHandler_def)

lemma runHandler_visibilitychange:
  "runHandler (visibilitychange h) s =
     (if hidden s then runHandler (performCleanup h True) s else s)"
  by (simp add: visibilitychange_def runHandler_def)

lemma passes_updates [simp]:
  "passes (s\<lparr>hidden := b\<rparr>) = passes s" "passes (s\<lparr>timers := ts\<rparr>) = passes s"
  "passes (s\<lparr>now := n\<rparr>) = passes s" "passes (s\<lparr>videos := vs\<rparr>) = passes s"
  "passes (s\<lparr>isProcessing := b\<rparr>) = passes s"
  by (simp_all add: passes_def)

lemma runTask_fields:
  "passes (runHandler (runTask h t) s) = passes s \<and>
   isProcessing (runHandler (runTask h t) s) = isProcessing s"
proof (cases t)
  case (RestoreSrc i u)
  then show ?thesis
    by (simp add: runHandler_def runTask_def lift_def setSrc_def passes_emit passOf_def)
next
  case StartTracking
  show ?thesis
  proof (cases "arSystemOf h")
    case None
    with StartTracking show ?thesis
      by (simp add: runHandler_def runTask_def lift_def)
  next
    case (Some ar)
    with StartTracking show ?thesis
      by (cases "start ar") (simp_all add: runHandler_def runTask_def call_def passes_emit passOf_def)
  qed
next
  case DecayErrorCount
  then show ?thesis
    by (simp add: runHandler_def runTask_def lift_def passes_errorCount_update)
qed

lemma fire_fields:
  "passes (fire h k s) = passes s" "isProcessing (fire h k s) = isProcessing s"
  by (simp_all add: fire_def runTask_fields)

lemma runHandler_guarded_eq:
  "\<not> disposeThrows h \<Longrightarrow>
     runHandler (guardedCleanup h f) s =
       (snd (performCleanup h f (s\<lparr>isProcessing := True\<rparr>)))\<lparr>isProcessing := False\<rparr>"
  by (simp add: runHandler_def guardedCleanup_def performCleanup_eq)

lemma fire_start_throws:
  "k < length (timers s) \<Longrightarrow> timers s ! k = (due, StartTracking) \<Longrightarrow> due \<le> now s \<Longrightarrow>
     arSystemOf h = Some ar \<Longrightarrow> start ar = Throws \<Longrightarrow>
     trace (fire h k s) = trace s @ [TrackingStart, UncaughtError]"
  by (simp add: fire_def runHandler_def runTask_def call_def)

lemma passes_dispatch: "length (passes (dispatch h sig s)) \<le> Suc (length (passes s))"
proof (cases sig)
  case (VisibilityChange b)
  have "passes (s\<lparr>hidden := b\<rparr>) = passes s"
    by (simp add: passes_def)
  with VisibilityChange show ?thesis
    by (simp add: runHandler_visibilitychange runHandler_cleanup)
next
  case (Advance d)
  then show ?thesis by (simp add: passes_def)
qed (simp_all add: runHandler_timerTick runHandler_heapTick runHandler_guarded runHandler_arError
    runHandler_cleanup beforeunload_def pagehide_def fire_fields)

lemma isProcessing_dispatch:
  "\<not> disposeThrows h \<Longrightarrow> \<not> isProcessing s \<Longrightarrow> \<not> isProcessing (dispatch h sig s)"
  by (cases sig)
    (simp_all add: runHandler_timerTick runHandler_heapTick runHandler_guarded runHandler_arError
      runHandler_cleanup runHandler_visibilitychange beforeunload_def pagehide_def fire_fields)

text \<open>
  On a page where no \<open>dispose()\<close> throws, \<open>isProcessing\<close> is false whenever a signal
  arrives: a guarded pass sets and clears the flag within one task of the event loop.
\<close>

lemma guard_clear_between_signals:
  "\<not> disposeThrows h \<Longrightarrow> \<not> isProcessing (run h sigs (initial vs))"
proof -
  have "\<not> isProcessing (fold (dispatch h) sigs s)" if "\<not> disposeThrows h" "\<not> isProcessing s" for s
    using that by (induction sigs arbitrary: s) (simp_all add: isProcessing_dispatch)
  then show "\<not> disposeThrows h \<Longrightarrow> \<not> isProcessing (run h sigs (initial vs))"
    by (simp add: run_def)
qed

section \<open>Rounding to a double\<close>

lemma excessBits_small: "n < 2 ^ 53 \<Longrightarrow> excessBits n = 0"
  by (simp add: excessBits.simps)

lemma excessBits_large: "\<not> n < 2 ^ 53 \<Longrightarrow> excessBits n = Suc (excessBits (n div 2))"
  by (subst excessBits.simps) simp

lemma excessBits_lower: "0 < excessBits n \<Longrightarrow> 2 ^ (52 + excessBits n) \<le> n"
proof (induction n rule: excessBits.induct)
  case (1 n)
  show ?case
  proof (cases "n < 2 ^ 53")
    case True
    with "1.prems" show ?thesis by (simp add: excessBits_small)
  next
    case False
    then have e: "excessBits n = Suc (excessBits (n div 2))"
      by (rule excessBits_large)
    show ?thesis
    proof (cases "excessBits (n div 2)")
      case 0
      with e False show ?thesis by simp
    next
      case (Suc k)
      with "1.IH" False have "2 ^ (52 + excessBits (n div 2)) \<le> n div 2"
        by simp
      then have "2 * 2 ^ (52 + excessBits (n div 2)) \<le> 2 * (n div 2)"
        by simp
      also have "\<dots> \<le> n" by simp
      finally show ?thesis by (simp add: e power_add)
    qed
  qed
qed

lemma roundToDouble_exact: "excessBits n = 0 \<Longrightarrow> roundToDouble n = n"
  by (simp add: roundToDouble_def)

lemma roundToDouble_upper: "roundToDouble n * 2 ^ 53 \<le> n * (2 ^ 53 + 1)"
proof (cases "excessBits n")
  case 0
  then show ?thesis by (simp add: roundToDouble_exact)
next
  case (Suc j)
  define k where "k = excessBits n"
  define m where "m = n div 2 ^ k"
  define r where "r = n mod 2 ^ k"
  define P :: nat where "P = 2 ^ 52"
  define R where "R = roundToDouble n"
  have n: "n = m * 2 ^ k + r"
    using div_mult_mod_eq [of n "2 ^ k"] by (simp add: m_def r_def)
  have R: "2 * R \<le> 2 * n + 2 ^ k"
  proof (cases "2 * r > 2 ^ k \<or> (2 * r = 2 ^ k \<and> odd m)")
    case True
    then have "R = (m + 1) * 2 ^ k"
      by (simp add: R_def roundToDouble_def Let_def k_def m_def r_def)
    moreover from True have "2 ^ k \<le> 2 * r" by auto
    ultimately show ?thesis
      by (simp add: n algebra_simps)
  next
    case False
    then have "R = m * 2 ^ k"
      by (simp add: R_def roundToDouble_def Let_def k_def m_def r_def)
    then show ?thesis
      by (simp add: n)
  qed
  have "0 < excessBits n" using Suc by simp
  from excessBits_lower [OF this] have PK: "P * 2 ^ k \<le> n"
    by (simp only: k_def P_def power_add)
  have "P * (2 * R) \<le> P * (2 * n + 2 ^ k)"
    using R by (rule mult_le_mono2)
  also have "\<dots> = 2 * P * n + P * 2 ^ k"
    by (simp add: algebra_simps)
  also have "\<dots> \<le> 2 * P * n + n"
    using PK by simp
  finally have "R * (2 * P) \<le> n * (2 * P + 1)"
    by (simp add: algebra_simps)
  moreover have "2 * P = 2 ^ 53"
    by (simp add: P_def)
  ultimately show ?thesis
    by (simp only: R_def)
qed

lemma excessBits_le_52: "n < 2 ^ 105 \<Longrightarrow> excessBits n \<le> 52"
proof (rule ccontr)
  assume n: "n < 2 ^ 105" and "\<not> excessBits n \<le> 52"
  then have k: "53 \<le> excessBits n" by simp
  then have "0 < excessBits n" by simp
  from excessBits_lower [OF this] have "2 ^ (52 + excessBits n) \<le> n" .
  moreover have "(2::nat) ^ 105 \<le> 2 ^ (52 + excessBits n)"
    using k by (intro power_increasing) simp_all
  ultimately show False using n by simp
qed

lemma roundToDouble_lower:
  assumes "a * 2 ^ 52 \<le> n" and "n < 2 ^ 105"
  shows "a * 2 ^ 52 \<le> roundToDouble n"
proof -
  define k where "k = excessBits n"
  define b where "b = a * 2 ^ (52 - k)"
  have k: "k \<le> 52" using excessBits_le_52 [OF assms(2)] by (simp add: k_def)
  then have "(2::nat) ^ (52 - k) * 2 ^ k = 2 ^ 52"
    by (simp only: flip: power_add) simp
  then have b: "b * 2 ^ k = a * 2 ^ 52"
    by (simp only: b_def mult.assoc)
  with assms(1) have "b * 2 ^ k \<le> n"
    by simp
  then have "b \<le> n div 2 ^ k"
    by (simp add: less_eq_div_iff_mult_less_eq)
  then have "b * 2 ^ k \<le> (n div 2 ^ k) * 2 ^ k"
    by simp
  also have "\<dots> \<le> roundToDouble n"
    by (simp add: roundToDouble_def Let_def k_def)
  finally show ?thesis by (simp only: b)
qed

lemma overThreshold_iff:
  assumes "l < 2 ^ 50"
  shows "overThreshold u l \<longleftrightarrow> 5 * u > 4 * l"
proof
  assume o: "overThreshold u l"
  show "5 * u > 4 * l"
  proof (rule ccontr)
    assume "\<not> 4 * l < 5 * u"
    then have "u * 2 ^ 52 \<le> l * 3602879701896397"
      by simp
    moreover have "l * 3602879701896397 < 2 ^ 105"
      using assms by simp
    ultimately have "u * 2 ^ 52 \<le> roundToDouble (l * 3602879701896397)"
      by (rule roundToDouble_lower)
    with o show False by (simp only: overThreshold_def)
  qed
next
  assume "5 * u > 4 * l"
  then have u: "4 * l + 1 \<le> 5 * u" by simp
  define R where "R = roundToDouble (l * 3602879701896397)"
  show "overThreshold u l"
  proof (rule ccontr)
    assume "\<not> overThreshold u l"
    then have "u * 2 ^ 52 \<le> R"
      by (simp only: overThreshold_def R_def not_less)
    then have "u * 2 ^ 52 * 2 ^ 53 \<le> R * 2 ^ 53"
      by simp
    also have "\<dots> \<le> l * 3602879701896397 * (2 ^ 53 + 1)"
      unfolding R_def by (rule roundToDouble_upper)
    finally show False using u assms by simp
  qed
qed



section \<open>Exact contents of a pass and of its callbacks\<close>

lemma listener_iff: "snd (initialize h) \<longleftrightarrow> scene h \<noteq> None"
  by (cases "scene h") (simp_all add: initialize_def setupErrorHandling_def)

lemma runHandler_cleanup_hidden:
  "passes (runHandler (performCleanup h f) (s\<lparr>hidden := b\<rparr>)) = passes s @ [f]"
  "isProcessing (runHandler (performCleanup h f) (s\<lparr>hidden := b\<rparr>)) = isProcessing s"
  by (simp_all add: runHandler_cleanup)

lemma no_decay_in_pass_timers:
  "(d, DecayErrorCount) \<notin> set (mediaTimers f t vs)"
  "(d, DecayErrorCount) \<notin> set (trackingTimers h f t)"
  by (simp_all add: mediaTimers_mem trackingTimers_mem)

lemma arErrorHandler_timers:
  assumes "arErrorHandler h s = (c, s')"
  shows "\<exists>ts. timers s' = timers s @ ts @
      (if c = Normal then [(now s + 300000, DecayErrorCount)] else []) \<and>
    (\<forall>d. (d, DecayErrorCount) \<notin> set ts)"
proof -
  define full where "full = (3 < errorCount s + 1)"
  define s1 where "s1 = s\<lparr>errorCount := errorCount s + 1\<rparr>"
  define ts where "ts = mediaTimers full (now s) (videos s) @
          (if disposeThrows h then [] else trackingTimers h full (now s))"
  obtain c0 s0 where eq: "performCleanup h full s1 = (c0, s0)"
    by force
  have handler: "arErrorHandler h s =
      (case c0 of
         Normal \<Rightarrow> (Normal, setTimeout DecayErrorCount 300000 (if full then s0\<lparr>errorCount := 0\<rparr> else s0))
       | Abrupt \<Rightarrow> (Abrupt, s0))"
    using eq unfolding full_def s1_def
    by (cases c0) (auto simp: arErrorHandler_def Let_def andThen_def lift_def)
  from eq have t0: "timers s0 = timers s @ ts" and n0: "now s0 = now s"
    by (auto simp: performCleanup_eq ts_def s1_def)
  have "timers s' = timers s @ ts @ (if c = Normal then [(now s + 300000, DecayErrorCount)] else [])"
    using assms handler t0 n0 by (cases c0; cases full) auto
  moreover have "\<forall>d. (d, DecayErrorCount) \<notin> set ts"
    by (simp add: ts_def no_decay_in_pass_timers)
  ultimately show ?thesis by blast
qed

lemma timers_runTask: "timers (runHandler (runTask h t) s) = timers s"
proof (cases t)
  case (RestoreSrc i u)
  then show ?thesis by (simp add: runHandler_def runTask_def lift_def setSrc_def)
next
  case StartTracking
  show ?thesis
  proof (cases "arSystemOf h")
    case None
    with StartTracking show ?thesis by (simp add: runHandler_def runTask_def lift_def)
  next
    case (Some ar)
    with StartTracking show ?thesis
      by (cases "start ar") (simp_all add: runHandler_def runTask_def call_def)
  qed
next
  case DecayErrorCount
  then show ?thesis by (simp add: runHandler_def runTask_def lift_def)
qed

lemma timers_fire:
  "timers (fire h k s) =
     (if k < length (timers s) \<and> fst (timers s ! k) \<le> now s
      then take k (timers s) @ drop (Suc k) (timers s) else timers s)"
  by (simp add: fire_def timers_runTask)



lemma disposals_iff:
  "TextureDispose n \<in> set (disposals b ts) \<longleftrightarrow>
     (\<exists>j<length ts. n = b + j \<and> (\<exists>oc. ts ! j = Disposable oc) \<and>
        (\<forall>i<j. ts ! i \<noteq> Disposable Throws))"
proof (induction ts arbitrary: b)
  case Nil
  then show ?case by simp
next
  case (Cons t ts)
  show ?case
  proof (cases t)
    case NullTexture
    then show ?thesis
      by (simp add: Cons.IH Ex_less_Suc2 All_less_Suc2)
  next
    case NoDispose
    then show ?thesis
      by (simp add: Cons.IH Ex_less_Suc2 All_less_Suc2)
  next
    case (Disposable oc)
    then show ?thesis
      by (cases oc) (auto simp: Cons.IH Ex_less_Suc2 All_less_Suc2)
  qed
qed

lemma TextureDispose_elsewhere:
  "TextureDispose n \<notin> set (mediaEffects f vs)" "TextureDispose n \<notin> set (unbindings g)"
  "TextureDispose n \<notin> set (gcEffects g')" "TextureDispose n \<notin> set (trackingEffects h f)"
  using phase_mediaEffects [of "TextureDispose n" f vs] phase_unbindings [of "TextureDispose n" g]
    phase_gcEffects [of "TextureDispose n" g'] phase_trackingEffects [of "TextureDispose n" h f]
  by auto

lemma TextureDispose_graphicsEffects:
  "TextureDispose n \<in> set (graphicsEffects h) \<longleftrightarrow>
     (\<exists>r txs. rendererOf h = Some r \<and> textures r = TextureArray txs \<and> n < length txs \<and>
        (\<exists>oc. txs ! n = Disposable oc) \<and> (\<forall>i<n. txs ! i \<noteq> Disposable Throws))"
proof (cases "rendererOf h")
  case None
  then show ?thesis by (simp add: graphicsEffects_def)
next
  case (Some r)
  then show ?thesis
    by (cases "textures r")
      (auto simp: graphicsEffects_def TextureDispose_elsewhere disposals_iff)
qed

lemma TextureDispose_pass:
  "TextureDispose n \<in> set (CleanupCall f # mediaEffects f vs @ graphicsEffects h @
        (if disposeThrows h then [] else trackingEffects h f)) \<longleftrightarrow>
     (\<exists>r txs. rendererOf h = Some r \<and> textures r = TextureArray txs \<and> n < length txs \<and>
        (\<exists>oc. txs ! n = Disposable oc) \<and> (\<forall>i<n. txs ! i \<noteq> Disposable Throws))"
  by (simp add: TextureDispose_elsewhere TextureDispose_graphicsEffects)

lemma filter_phase_same:
  "(\<And>e. e \<in> set xs \<Longrightarrow> phase e = k) \<Longrightarrow> filter (\<lambda>e. phase e = j) xs = (if j = k then xs else [])"
  by (induction xs) auto

lemma filter_phase3_tracking: "filter (\<lambda>e. phase e = 3) (trackingEffects h f) = []"
  using phase_trackingEffects [of _ h f] by (fastforce simp: filter_empty_conv)

lemma filter_phase3_graphics:
  "filter (\<lambda>e. phase e = 3) (graphicsEffects h) =
     (if disposeThrows h then []
      else case rendererOf h of None \<Rightarrow> [] | Some r \<Rightarrow> unbindings (getContext r))"
proof (cases "rendererOf h")
  case None
  then show ?thesis by (simp add: graphicsEffects_def)
next
  case (Some r)
  have d: "filter (\<lambda>e. phase e = 3) (disposals 0 txs) = []" for txs
    using filter_phase_same [of "disposals 0 txs" 2 3] phase_disposals by simp
  have u: "filter (\<lambda>e. phase e = 3) (unbindings g) = unbindings g" for g
    using filter_phase_same [of "unbindings g" 3 3] phase_unbindings by simp
  have g: "filter (\<lambda>e. phase e = 3) (gcEffects g') = []" for g'
    using filter_phase_same [of "gcEffects g'" 4 3] phase_gcEffects by simp
  from Some show ?thesis
    by (cases "textures r")
      (auto simp: graphicsEffects_def disposeThrows_def rendererOf_def d u g split: option.splits)
qed

lemma filter_phase3_pass:
  "filter (\<lambda>e. phase e = 3) (CleanupCall f # mediaEffects f vs @ graphicsEffects h @
        (if disposeThrows h then [] else trackingEffects h f)) =
     (if disposeThrows h then []
      else case rendererOf h of None \<Rightarrow> [] | Some r \<Rightarrow> unbindings (getContext r))"
proof -
  have "filter (\<lambda>e. phase e = 3) (mediaEffects f vs) = []"
    using filter_phase_same [of "mediaEffects f vs" 1 3] phase_mediaEffects by simp
  then show ?thesis
    by (simp add: filter_phase3_graphics filter_phase3_tracking)
qed

lemma SetTimeout_start_elsewhere:
  "SetTimeout StartTracking d \<notin> set (mediaEffects f vs)"
  "SetTimeout StartTracking d \<notin> set (graphicsEffects h)"
  using phase_mediaEffects [of "SetTimeout StartTracking d" f vs]
    phase_graphicsEffects [of "SetTimeout StartTracking d" h]
  by auto

lemma TrackingStop_elsewhere:
  "TrackingStop \<notin> set (mediaEffects f vs)" "TrackingStop \<notin> set (graphicsEffects h)"
  using phase_mediaEffects [of TrackingStop f vs] phase_graphicsEffects [of TrackingStop h]
  by auto

lemma SetTimeout_start_tracking:
  "SetTimeout StartTracking d \<in> set (trackingEffects h f) \<longleftrightarrow>
     d = 1000 \<and> f \<and> (\<exists>ar. arSystemOf h = Some ar \<and> stop ar = Returns)"
proof (cases "arSystemOf h")
  case None
  then show ?thesis by (simp add: trackingEffects_def)
next
  case (Some ar)
  then show ?thesis by (cases "stop ar") (auto simp: trackingEffects_def)
qed

lemma mediaTimers_True:
  "mediaTimers True t vs =
     concat (map (\<lambda>i. if \<not> paused (vs ! i) then [(t + 100, RestoreSrc i (src (vs ! i)))] else [])
       [0..<length vs])"
  by (simp add: mediaTimers_def videoTimers_def)

lemma trackingTimers_True:
  "trackingTimers h True t =
     (if \<exists>ar. arSystemOf h = Some ar \<and> stop ar = Returns then [(t + 1000, StartTracking)] else [])"
  by (cases "arSystemOf h") (simp_all add: trackingTimers_def)

lemma fire_restore:
  "k < length (timers t) \<Longrightarrow> timers t ! k = (due, RestoreSrc i u) \<Longrightarrow> due \<le> now t \<Longrightarrow>
     i < length (videos t) \<Longrightarrow>
     src (videos (fire h k t) ! i) = u \<and> trace (fire h k t) = trace t @ [VideoSetSrc i u]"
  by (simp add: fire_def runHandler_def runTask_def lift_def setSrc_def)

lemma fire_start:
  "k < length (timers t) \<Longrightarrow> timers t ! k = (due, StartTracking) \<Longrightarrow> due \<le> now t \<Longrightarrow>
     arSystemOf h = Some ar \<Longrightarrow>
     trace (fire h k t) = trace t @ TrackingStart # (if start ar = Throws then [UncaughtError] else [])"
  by (cases "start ar") (simp_all add: fire_def runHandler_def runTask_def call_def)

lemma cleanedVideo_playing:
  "\<not> paused v \<Longrightarrow> cleanedVideo True v = v\<lparr>paused := True, currentTime := 0, src := []\<rparr>"
  by (simp add: cleanedVideo_def)

section \<open>The \<open>isProcessing\<close> guard\<close>

text \<open>
  C1 as stated: under every sequence of signals, a request that arrives while
  \<open>isProcessing\<close> is true is dropped, so that no invocation of \<open>performCleanup\<close> starts
  while the flag is set. This fails: the \<open>pagehide\<close> handler calls \<open>performCleanup(true)\<close>
  without reading the flag. Below, a light tick sets the flag (and a throwing \<open>dispose()\<close>
  keeps it set); the following \<open>pagehide\<close> starts a second pass all the same.
\<close>

theorem guard_bypassed_counterexample:
  "isProcessing (dispatch hostBadTexture LightTick (initial [])) \<and>
   passes (dispatch hostBadTexture LightTick (initial [])) = [False] \<and>
   passes (dispatch hostBadTexture PageHide (dispatch hostBadTexture LightTick (initial []))) = [False, True]"
proof -
  have i: "\<not> hidden (initial [])" "\<not> isProcessing (initial [])" "passes (initial []) = []"
    by (simp_all add: initial_def passes_def)
  show ?thesis
    by (simp add: tick_accepted i runHandler_guarded disposeThrows_hostBadTexture
        pagehide_def runHandler_cleanup)
qed

text \<open>
  C1 as amended: only the interval callbacks read \<open>isProcessing\<close>. While it is true, a
  light tick, a full tick and a heap sample start no pass and change nothing. While it is
  false, a tick on a visible page starts one pass of its level, and a heap sample over the
  threshold on a host with heap telemetry starts one Full pass. The handlers of
  \<open>visibilitychange\<close> (page hidden), \<open>beforeunload\<close> and \<open>pagehide\<close> and the listener of
  \<open>arError\<close> do not read the flag: each of them always starts one pass (Full for the first
  three, of the level chosen from \<open>errorCount\<close> for the last) and leaves the flag as it
  was. Every signal starts at most one pass.
\<close>

theorem guard_covers_ticks_only:
  "(isProcessing s \<longrightarrow>
      dispatch h LightTick s = s \<and> dispatch h FullTick s = s \<and> dispatch h (HeapTick u l) s = s) \<and>
   (\<not> isProcessing s \<and> \<not> hidden s \<longrightarrow>
      passes (dispatch h LightTick s) = passes s @ [False] \<and>
      passes (dispatch h FullTick s) = passes s @ [True]) \<and>
   (\<not> isProcessing s \<and> memory h \<and> overThreshold u l \<longrightarrow>
      passes (dispatch h (HeapTick u l) s) = passes s @ [True]) \<and>
   passes (dispatch h (VisibilityChange True) s) = passes s @ [True] \<and>
   isProcessing (dispatch h (VisibilityChange True) s) = isProcessing s \<and>
   passes (dispatch h BeforeUnload s) = passes s @ [True] \<and>
   isProcessing (dispatch h BeforeUnload s) = isProcessing s \<and>
   passes (dispatch h PageHide s) = passes s @ [True] \<and>
   isProcessing (dispatch h PageHide s) = isProcessing s \<and>
   (scene h \<noteq> None \<longrightarrow>
      passes (dispatch h ArError s) = passes s @ [3 < errorCount s + 1] \<and>
      isProcessing (dispatch h ArError s) = isProcessing s) \<and>
   length (passes (dispatch h sig s)) \<le> Suc (length (passes s))"
proof -
  have ticks: "isProcessing s \<longrightarrow>
      dispatch h LightTick s = s \<and> dispatch h FullTick s = s \<and> dispatch h (HeapTick u l) s = s"
    by (simp add: tick_dropped)
  have accepted: "\<not> isProcessing s \<and> \<not> hidden s \<longrightarrow>
      passes (dispatch h LightTick s) = passes s @ [False] \<and>
      passes (dispatch h FullTick s) = passes s @ [True]"
    by (simp add: runHandler_timerTick runHandler_guarded)
  have heap: "\<not> isProcessing s \<and> memory h \<and> overThreshold u l \<longrightarrow>
      passes (dispatch h (HeapTick u l) s) = passes s @ [True]"
    by (simp add: runHandler_heapTick runHandler_guarded)
  have vis: "passes (dispatch h (VisibilityChange True) s) = passes s @ [True] \<and>
      isProcessing (dispatch h (VisibilityChange True) s) = isProcessing s"
    by (simp add: runHandler_visibilitychange runHandler_cleanup_hidden)
  have unload: "passes (dispatch h BeforeUnload s) = passes s @ [True] \<and>
      isProcessing (dispatch h BeforeUnload s) = isProcessing s \<and>
      passes (dispatch h PageHide s) = passes s @ [True] \<and>
      isProcessing (dispatch h PageHide s) = isProcessing s"
    by (simp add: beforeunload_def pagehide_def runHandler_cleanup)
  have err: "scene h \<noteq> None \<longrightarrow>
      passes (dispatch h ArError s) = passes s @ [3 < errorCount s + 1] \<and>
      isProcessing (dispatch h ArError s) = isProcessing s"
    by (simp add: listener_iff runHandler_arError)
  from ticks accepted heap vis unload err passes_dispatch [of h sig s]
  show ?thesis by blast
qed

theorem guard_covers_ticks_only_witness:
  "isProcessing (dispatch hostBadTexture LightTick (initial [])) \<and>
   dispatch hostBadTexture FullTick (dispatch hostBadTexture LightTick (initial [])) =
     dispatch hostBadTexture LightTick (initial []) \<and>
   passes (dispatch hostBadTexture BeforeUnload (dispatch hostBadTexture LightTick (initial []))) =
     [False, True] \<and>
   scene hostBadTexture \<noteq> None \<and>
   passes (dispatch hostBadTexture ArError (dispatch hostBadTexture LightTick (initial []))) =
     [False, False] \<and>
   \<not> isProcessing (initial []) \<and> \<not> hidden (initial []) \<and> memory hostOk \<and> overThreshold 81 100 \<and>
   passes (dispatch hostOk FullTick (initial [])) = [True] \<and>
   passes (dispatch hostOk (HeapTick 81 100) (initial [])) = [True]"
proof -
  let ?s = "dispatch hostBadTexture LightTick (initial [])"
  have p: "isProcessing ?s"
    by (simp add: tick_accepted runHandler_guarded disposeThrows_hostBadTexture)
  have q: "passes ?s = [False]"
    by (simp add: tick_accepted runHandler_guarded)
  have e: "errorCount ?s = 0"
    by (simp add: errorCount_tick)
  have sc: "scene hostBadTexture \<noteq> None" "memory hostOk"
    by (simp_all add: hostBadTexture_def hostOk_def)
  have o: "overThreshold 81 100"
    by (simp add: overThreshold_iff)
  show ?thesis
    using guard_covers_ticks_only [of ?s hostBadTexture 0 0 LightTick]
      guard_covers_ticks_only [of "initial []" hostOk 81 100 LightTick] p q e sc o
    by simp
qed

text \<open>
  C2, evaluated where it fails: a light tick on a page whose first texture throws in
  \<open>dispose()\<close>. \<open>performCleanup\<close> is not an \<open>async\<close> function, so the exception leaves the
  call before \<open>.finally\<close> is attached; \<open>isProcessing\<close> stays true and every later light
  tick, full tick and heap sample is dropped. On a page where nothing throws, the flag is
  cleared and the next tick is accepted.
\<close>

theorem guard_stuck_after_throw:
  "isProcessing (run hostBadTexture [LightTick] (initial [])) \<and>
   run hostBadTexture [LightTick, LightTick, FullTick, HeapTick 90 100] (initial []) =
     run hostBadTexture [LightTick] (initial []) \<and>
   \<not> isProcessing (run hostOk [LightTick] (initial [])) \<and>
   passes (run hostOk [LightTick, LightTick] (initial [])) = [False, False]"
proof -
  have i: "\<not> hidden (initial [])" "\<not> isProcessing (initial [])" "passes (initial []) = []"
    by (simp_all add: initial_def passes_def)
  have p: "isProcessing (runHandler (guardedCleanup hostBadTexture False) (initial []))"
    by (simp add: runHandler_guarded disposeThrows_hostBadTexture)
  have q: "\<not> isProcessing (runHandler (guardedCleanup hostOk False) (initial []))"
    by (simp add: runHandler_guarded disposeThrows_hostOk)
  have r: "\<not> hidden (runHandler (guardedCleanup hostOk False) (initial []))"
    by (simp add: runHandler_def guardedCleanup_def performCleanup_eq disposeThrows_hostOk initial_def)
  show ?thesis
    using p q r
    by (simp add: run_def tick_accepted i tick_dropped runHandler_guarded hostBadTexture_def)
qed

section \<open>The error counter\<close>

text \<open>
  C3 as stated: after every \<open>arError\<close> that arrives at a count of exactly 3, the pass is
  Full and \<open>errorCount\<close> is reset to 0 afterwards. This fails when the pass throws: the
  reset is the statement after \<open>await performCleanup(true)\<close>, with no \<open>try\<close> around it.
  Below, on a page whose first texture throws in \<open>dispose()\<close>, the fourth \<open>arError\<close> arrives
  at a count of 3, starts a Full pass, and leaves the count at 4.
\<close>

theorem error_reset_skipped_counterexample:
  "errorCount (run hostBadTexture [ArError, ArError, ArError] (initial [])) = 3 \<and>
   passes (run hostBadTexture [ArError, ArError, ArError, ArError] (initial [])) =
     [False, False, False, True] \<and>
   errorCount (run hostBadTexture [ArError, ArError, ArError, ArError] (initial [])) = 4"
  by (simp add: run_def listener_hostBadTexture runHandler_arError disposeThrows_hostBadTexture)

text \<open>
  C3 as amended: the \<open>arError\<close> listener increments \<open>errorCount\<close> before it starts the
  pass. From a count of exactly 3 (or more) the pass is Full; \<open>errorCount\<close> is 0 after a
  pass that returns and stays at the incremented value, 4, after a pass that throws. From
  a count of 0, 1 or 2 the pass is Light and \<open>errorCount\<close> stays at its incremented value
  either way. The pass throws exactly when a texture \<open>dispose()\<close> throws.
\<close>

theorem error_burst_level:
  assumes "arErrorHandler h s = (c, s')"
  shows "passes s' = passes s @ [3 \<le> errorCount s] \<and>
    (c = Abrupt \<longleftrightarrow> disposeThrows h) \<and>
    errorCount s' = (if c = Normal \<and> 3 \<le> errorCount s then 0 else errorCount s + 1) \<and>
    (errorCount s = 3 \<longrightarrow>
       passes s' = passes s @ [True] \<and> errorCount s' = (if c = Normal then 0 else 4)) \<and>
    (errorCount s \<in> {0, 1, 2} \<longrightarrow> passes s' = passes s @ [False] \<and> errorCount s' = errorCount s + 1)"
proof -
  note f = arErrorHandler_fields [OF assms]
  have 1: "passes s' = passes s @ [3 \<le> errorCount s]"
    using f(1) by simp
  have 2: "c = Abrupt \<longleftrightarrow> disposeThrows h"
    using f(3) by simp
  have 3: "errorCount s' = (if c = Normal \<and> 3 \<le> errorCount s then 0 else errorCount s + 1)"
    using f(2) by simp
  from 1 2 3 show ?thesis by auto
qed

theorem error_burst_level_witness:
  "errorCount (run hostOk [ArError, ArError, ArError] (initial [])) = 3 \<and>
   fst (arErrorHandler hostOk (run hostOk [ArError, ArError, ArError] (initial []))) = Normal \<and>
   passes (snd (arErrorHandler hostOk (run hostOk [ArError, ArError, ArError] (initial [])))) =
     [False, False, False, True] \<and>
   errorCount (snd (arErrorHandler hostOk (run hostOk [ArError, ArError, ArError] (initial [])))) = 0 \<and>
   errorCount (run hostBadTexture [ArError, ArError, ArError] (initial [])) = 3 \<and>
   fst (arErrorHandler hostBadTexture (run hostBadTexture [ArError, ArError, ArError] (initial []))) = Abrupt \<and>
   passes (snd (arErrorHandler hostBadTexture (run hostBadTexture [ArError, ArError, ArError] (initial [])))) =
     [False, False, False, True] \<and>
   errorCount (snd (arErrorHandler hostBadTexture (run hostBadTexture [ArError, ArError, ArError] (initial [])))) = 4 \<and>
   errorCount (initial []) \<in> {0, 1, 2} \<and>
   passes (snd (arErrorHandler hostOk (initial []))) = [False] \<and>
   errorCount (snd (arErrorHandler hostOk (initial []))) = 1"
proof -
  let ?s = "run hostOk [ArError, ArError, ArError] (initial [])"
  let ?t = "run hostBadTexture [ArError, ArError, ArError] (initial [])"
  have a: "arErrorHandler hostOk ?s = (fst (arErrorHandler hostOk ?s), snd (arErrorHandler hostOk ?s))"
    by simp
  have a0: "arErrorHandler hostOk (initial []) =
      (fst (arErrorHandler hostOk (initial [])), snd (arErrorHandler hostOk (initial [])))"
    by simp
  have a1: "arErrorHandler hostBadTexture ?t =
      (fst (arErrorHandler hostBadTexture ?t), snd (arErrorHandler hostBadTexture ?t))"
    by simp
  have b: "errorCount ?s = 3" "passes ?s = [False, False, False]"
    by (simp_all add: run_def listener_hostOk runHandler_arError disposeThrows_hostOk)
  have b1: "errorCount ?t = 3" "passes ?t = [False, False, False]"
    by (simp_all add: run_def listener_hostBadTexture runHandler_arError disposeThrows_hostBadTexture)
  have d: "fst (arErrorHandler hostOk ?s) = Normal"
    using arErrorHandler_fields(3) [OF a] by (simp add: disposeThrows_hostOk)
  have e: "fst (arErrorHandler hostBadTexture ?t) = Abrupt"
    using arErrorHandler_fields(3) [OF a1] by (simp add: disposeThrows_hostBadTexture)
  show ?thesis
    using error_burst_level [OF a] error_burst_level [OF a0] error_burst_level [OF a1] b b1 d e
    by simp
qed

text \<open>
  C4 as stated: the decay is scheduled whether the pass succeeds or fails. This fails:
  \<open>setTimeout\<close> comes after \<open>await performCleanup(..)\<close>, so a pass that throws leaves the
  listener before the decay is scheduled. Below, the count is 1 and no timer is pending.
\<close>

theorem decay_skipped_counterexample:
  "errorCount (dispatch hostBadTexture ArError (initial [])) = 1 \<and>
   timers (dispatch hostBadTexture ArError (initial [])) = []"
proof -
  obtain c s' where eq: "arErrorHandler hostBadTexture (initial []) = (c, s')" by force
  have c: "c = Abrupt"
    using arErrorHandler_fields(3) [OF eq] by (simp add: disposeThrows_hostBadTexture)
  have "timers s' = []"
    using eq c
    by (auto simp: arErrorHandler_def Let_def andThen_def lift_def performCleanup_eq
        disposeThrows_hostBadTexture mediaTimers_def)
  then show ?thesis
    using arErrorHandler_fields(2) [OF eq] c
    by (simp add: listener_hostBadTexture runHandler_def eq)
qed

text \<open>
  C4 as amended: an \<open>arError\<close> whose pass returns schedules exactly one decay, due
  300000 ms after the signal; an \<open>arError\<close> whose pass throws (which happens exactly when
  a texture \<open>dispose()\<close> throws) schedules none. A decay that is not yet due does nothing
  when it is fired; a due one lowers \<open>errorCount\<close> by one, not below 0, and is removed
  from the pending timers. \<open>errorCount\<close> is never negative, under any sequence of signals
  and timer firings from the initial state.
\<close>

theorem error_decay:
  "(arErrorHandler h s = (c, s') \<longrightarrow>
      (c = Abrupt \<longleftrightarrow> disposeThrows h) \<and>
      (\<exists>ts. timers s' = timers s @ ts @
           (if c = Normal then [(now s + 300000, DecayErrorCount)] else []) \<and>
         (\<forall>d. (d, DecayErrorCount) \<notin> set ts))) \<and>
   (k < length (timers t) \<and> snd (timers t ! k) = DecayErrorCount \<longrightarrow>
      errorCount (dispatch h (Fire k) t) =
        (if fst (timers t ! k) \<le> now t then max 0 (errorCount t - 1) else errorCount t) \<and>
      timers (dispatch h (Fire k) t) =
        (if fst (timers t ! k) \<le> now t then take k (timers t) @ drop (Suc k) (timers t)
         else timers t)) \<and>
   0 \<le> errorCount (run h sigs (initial vs))"
proof -
  have "c = Abrupt \<longleftrightarrow> disposeThrows h" if "arErrorHandler h s = (c, s')"
    using arErrorHandler_fields(3) [OF that] by simp
  then show ?thesis
    using arErrorHandler_timers [of h s c s']
    by (simp add: errorCount_fire timers_fire errorCount_run)
qed

theorem error_decay_witness:
  "fst (arErrorHandler hostOk (initial [])) = Normal \<and>
   timers (snd (arErrorHandler hostOk (initial []))) = [(300000, DecayErrorCount)] \<and>
   errorCount (snd (arErrorHandler hostOk (initial []))) = 1 \<and>
   errorCount (dispatch hostOk (Fire 0) (snd (arErrorHandler hostOk (initial [])))) = 1 \<and>
   errorCount (run hostOk [Advance 300000, Fire 0] (snd (arErrorHandler hostOk (initial [])))) = 0 \<and>
   timers (run hostOk [Advance 300000, Fire 0] (snd (arErrorHandler hostOk (initial [])))) = [] \<and>
   fst (arErrorHandler hostBadTexture (initial [])) = Abrupt \<and>
   (\<forall>d. (d, DecayErrorCount) \<notin> set (timers (snd (arErrorHandler hostBadTexture (initial [])))))"
proof -
  let ?s = "snd (arErrorHandler hostOk (initial []))"
  let ?t = "dispatch hostOk (Advance 300000) ?s"
  let ?b = "snd (arErrorHandler hostBadTexture (initial []))"
  have a: "arErrorHandler hostOk (initial []) = (fst (arErrorHandler hostOk (initial [])), ?s)"
    by simp
  have a1: "arErrorHandler hostBadTexture (initial []) =
      (fst (arErrorHandler hostBadTexture (initial [])), ?b)"
    by simp
  have b: "fst (arErrorHandler hostOk (initial [])) = Normal"
    using arErrorHandler_fields(3) [OF a] by (simp add: disposeThrows_hostOk)
  have b1: "fst (arErrorHandler hostBadTexture (initial [])) = Abrupt"
    using arErrorHandler_fields(3) [OF a1] by (simp add: disposeThrows_hostBadTexture)
  have c: "arErrorHandler hostOk (initial []) = (Normal, ?s)"
    using a b by simp
  have c1: "arErrorHandler hostBadTexture (initial []) = (Abrupt, ?b)"
    using a1 b1 by simp
  have d: "timers ?s = [(300000, DecayErrorCount)]"
    by (simp add: arErrorHandler_def Let_def andThen_def lift_def performCleanup_eq
        disposeThrows_hostOk mediaTimers_def trackingTimers_def arSystemOf_hostOk)
  have e: "errorCount ?s = 1"
    using arErrorHandler_fields(2) [OF c] by simp
  have f: "now ?s = 0"
    by (simp add: arErrorHandler_def Let_def andThen_def lift_def performCleanup_eq
        disposeThrows_hostOk)
  show ?thesis
    using error_decay [of hostOk "initial []" Normal ?s 0 ?s "[]" "[]"]
      error_decay [of hostOk "initial []" Normal ?s 0 ?t "[]" "[]"]
      error_decay [of hostBadTexture "initial []" Abrupt ?b 0 ?b "[]" "[]"] b b1 c c1 d e f
    by (simp add: run_def)
qed

section \<open>The heap sampler\<close>




section \<open>Failures inside a pass\<close>

text \<open>
  C6 as stated: a step that throws, such as a texture \<open>dispose()\<close>, does not abort the
  steps after it. This fails: the texture loop is not inside any \<open>try\<close>. Below, the first
  texture throws; the second texture is not disposed, nothing is unbound, no GC hint is
  requested, the tracking system is not stopped, and \<open>performCleanup\<close> ends in an exception.
\<close>

theorem dispose_failure_aborts_counterexample:
  "fst (performCleanup hostBadTexture True (initial [clip])) = Abrupt \<and>
   trace (snd (performCleanup hostBadTexture True (initial [clip]))) =
     [CleanupCall True, VideoPause 0, VideoSeek 0 0, VideoSetSrc 0 [], VideoLoad 0,
      SetTimeout (RestoreSrc 0 ''book.mp4'') 100, TextureDispose 0]"
proof -
  have "graphicsEffects hostBadTexture = [TextureDispose 0]"
    by (simp add: graphicsEffects_def rendererOf_def hostBadTexture_def)
  then show ?thesis
    by (simp add: performCleanup_eq disposeThrows_hostBadTexture mediaEffects_def videoBlock_def
        clip_def)
qed

text \<open>
  C6 as amended: within a pass, the two steps written inside \<open>try\<close> are the GC hint and
  the stop of the tracking system. When either throws, a warning is logged and the pass
  still returns; after a failing GC hint the tracking system is still stopped at Full
  level. A pass ends in an exception exactly when a texture \<open>dispose()\<close> throws. A texture
  of the array is disposed exactly when it has a \<open>dispose\<close> and no texture before it has
  thrown, so the textures after the throwing one are not disposed; and after the throw
  nothing beyond the texture loop is executed.
\<close>

theorem only_gc_and_stop_are_isolated:
  assumes "performCleanup h fullCleanup s = (c, s')"
  shows "\<exists>es. trace s' = trace s @ es \<and>
    (c = Abrupt \<longleftrightarrow> disposeThrows h) \<and>
    (\<forall>n. TextureDispose n \<in> set es \<longleftrightarrow>
       (\<exists>r txs. rendererOf h = Some r \<and> textures r = TextureArray txs \<and> n < length txs \<and>
          (\<exists>oc. txs ! n = Disposable oc) \<and> (\<forall>i<n. txs ! i \<noteq> Disposable Throws))) \<and>
    (disposeThrows h \<longrightarrow> (\<forall>e\<in>set es. phase e \<le> 2)) \<and>
    (\<not> disposeThrows h \<and> rendererOf h \<noteq> None \<and> gc h = Some Throws \<longrightarrow>
       ConsoleWarn ''GC not available'' \<in> set es) \<and>
    (\<not> disposeThrows h \<and> fullCleanup \<and> arSystemOf h \<noteq> None \<longrightarrow> TrackingStop \<in> set es) \<and>
    (\<forall>ar. \<not> disposeThrows h \<and> fullCleanup \<and> arSystemOf h = Some ar \<and> stop ar = Throws \<longrightarrow>
       ConsoleWarn ''AR system cleanup error:'' \<in> set es)"
proof -
  let ?es = "CleanupCall fullCleanup # mediaEffects fullCleanup (videos s) @ graphicsEffects h @
        (if disposeThrows h then [] else trackingEffects h fullCleanup)"
  have "trace s' = trace s @ ?es"
    using assms by (rule performCleanup_trace)
  moreover have "c = Abrupt \<longleftrightarrow> disposeThrows h"
    using performCleanup_fields(6) [OF assms] by simp
  moreover have "\<forall>n. TextureDispose n \<in> set ?es \<longleftrightarrow>
       (\<exists>r txs. rendererOf h = Some r \<and> textures r = TextureArray txs \<and> n < length txs \<and>
          (\<exists>oc. txs ! n = Disposable oc) \<and> (\<forall>i<n. txs ! i \<noteq> Disposable Throws))"
    using TextureDispose_pass by blast
  moreover have "disposeThrows h \<longrightarrow> (\<forall>e\<in>set ?es. phase e \<le> 2)"
    by (auto dest: phase_mediaEffects graphicsEffects_abrupt)
  moreover have "\<not> disposeThrows h \<and> rendererOf h \<noteq> None \<and> gc h = Some Throws \<longrightarrow>
       ConsoleWarn ''GC not available'' \<in> set ?es"
    by (simp add: warn_graphicsEffects)
  moreover have "\<not> disposeThrows h \<and> fullCleanup \<and> arSystemOf h \<noteq> None \<longrightarrow> TrackingStop \<in> set ?es"
    by (simp add: TrackingStop_trackingEffects)
  moreover have "\<forall>ar. \<not> disposeThrows h \<and> fullCleanup \<and> arSystemOf h = Some ar \<and> stop ar = Throws \<longrightarrow>
       ConsoleWarn ''AR system cleanup error:'' \<in> set ?es"
    by (simp add: warn_trackingEffects)
  ultimately show ?thesis by blast
qed

theorem only_gc_and_stop_are_isolated_witness:
  "\<not> disposeThrows hostBadStop \<and> rendererOf hostBadStop \<noteq> None \<and> gc hostBadStop = Some Throws \<and>
   arSystemOf hostBadStop = Some \<lparr>stop = Throws, start = Returns\<rparr> \<and>
   disposeThrows hostBadTexture \<and>
   fst (performCleanup hostBadStop True (initial [])) = Normal \<and>
   fst (performCleanup hostBadTexture True (initial [])) = Abrupt \<and>
   (\<exists>es. trace (snd (performCleanup hostBadStop True (initial []))) = trace (initial []) @ es \<and>
      ConsoleWarn ''GC not available'' \<in> set es \<and> TrackingStop \<in> set es \<and>
      ConsoleWarn ''AR system cleanup error:'' \<in> set es) \<and>
   (\<exists>es. trace (snd (performCleanup hostBadTexture True (initial []))) = trace (initial []) @ es \<and>
      (\<forall>e\<in>set es. phase e \<le> 2) \<and> TextureDispose 0 \<in> set es \<and> TextureDispose 1 \<notin> set es)"
proof -
  let ?r = "\<lparr>getContext = Some \<lparr>maxTextureImageUnits = 2\<rparr>,
       textures = TextureArray [Disposable Throws, Disposable Returns]\<rparr>"
  have a: "performCleanup hostBadStop True (initial []) =
      (fst (performCleanup hostBadStop True (initial [])),
       snd (performCleanup hostBadStop True (initial [])))"
    by simp
  have a': "performCleanup hostBadTexture True (initial []) =
      (fst (performCleanup hostBadTexture True (initial [])),
       snd (performCleanup hostBadTexture True (initial [])))"
    by simp
  have b: "\<not> disposeThrows hostBadStop" "rendererOf hostBadStop \<noteq> None" "gc hostBadStop = Some Throws"
    "arSystemOf hostBadStop = Some \<lparr>stop = Throws, start = Returns\<rparr>"
    by (simp_all add: rendererOf_def arSystemOf_def disposeThrows_def hostBadStop_def)
  have c: "fst (performCleanup hostBadStop True (initial [])) \<noteq> Abrupt \<Longrightarrow>
      fst (performCleanup hostBadStop True (initial [])) = Normal"
    by (cases "fst (performCleanup hostBadStop True (initial []))") simp_all
  have r: "rendererOf hostBadTexture = Some ?r"
    by (simp add: rendererOf_def hostBadTexture_def)
  from only_gc_and_stop_are_isolated [OF a'] obtain es where
    tr: "trace (snd (performCleanup hostBadTexture True (initial []))) = trace (initial []) @ es" and
    ab: "fst (performCleanup hostBadTexture True (initial [])) = Abrupt \<longleftrightarrow> disposeThrows hostBadTexture" and
    td: "\<forall>n. TextureDispose n \<in> set es \<longleftrightarrow>
       (\<exists>r txs. rendererOf hostBadTexture = Some r \<and> textures r = TextureArray txs \<and> n < length txs \<and>
          (\<exists>oc. txs ! n = Disposable oc) \<and> (\<forall>i<n. txs ! i \<noteq> Disposable Throws))" and
    ph: "disposeThrows hostBadTexture \<longrightarrow> (\<forall>e\<in>set es. phase e \<le> 2)"
    by blast
  from td have "TextureDispose 0 \<in> set es" "TextureDispose 1 \<notin> set es"
    by (simp_all add: r)
  with tr ab ph have bad: "fst (performCleanup hostBadTexture True (initial [])) = Abrupt \<and>
    (\<exists>es. trace (snd (performCleanup hostBadTexture True (initial []))) = trace (initial []) @ es \<and>
      (\<forall>e\<in>set es. phase e \<le> 2) \<and> TextureDispose 0 \<in> set es \<and> TextureDispose 1 \<notin> set es)"
    using disposeThrows_hostBadTexture by blast
  show ?thesis
    using only_gc_and_stop_are_isolated [OF a] b c bad disposeThrows_hostBadTexture
    by simp
qed

section \<open>The order of a Full pass\<close>

text \<open>
  C7 as stated: every Full pass performs, in order, the media pause and reset, the clearing
  and later restore of the source, texture disposal and unbinding, the GC hint, the stop
  of the tracking system and its later start. This fails: which of these a Full pass
  performs depends on the page. Below, a \<open>stop()\<close> that throws is caught and no start is
  scheduled; without a renderer nothing is disposed or unbound and the exposed GC hint is
  not called; and a \<open>dispose()\<close> that throws ends the pass before unbinding, GC hint and
  tracking stop.
\<close>

theorem full_pass_skips_steps_counterexample:
  "trace (snd (performCleanup hostBadStop True (initial []))) =
     [CleanupCall True, GcCall, ConsoleWarn ''GC not available'', TrackingStop,
      ConsoleWarn ''AR system cleanup error:''] \<and>
   timers (snd (performCleanup hostBadStop True (initial []))) = [] \<and>
   gc hostNoRenderer = Some Returns \<and>
   trace (snd (performCleanup hostNoRenderer True (initial [clip]))) =
     [CleanupCall True, VideoPause 0, VideoSeek 0 0, VideoSetSrc 0 [], VideoLoad 0,
      SetTimeout (RestoreSrc 0 ''book.mp4'') 100] \<and>
   trace (snd (performCleanup hostBadTexture True (initial []))) = [CleanupCall True, TextureDispose 0] \<and>
   timers (snd (performCleanup hostBadTexture True (initial []))) = []"
proof -
  have b: "arSystemOf hostBadStop = Some \<lparr>stop = Throws, start = Returns\<rparr>"
    "\<not> disposeThrows hostBadStop"
    "graphicsEffects hostBadStop = [GcCall, ConsoleWarn ''GC not available'']"
    by (simp_all add: arSystemOf_def disposeThrows_def graphicsEffects_def rendererOf_def
        unbindings_def gcEffects_def hostBadStop_def)
  have n: "arSystemOf hostNoRenderer = None" "\<not> disposeThrows hostNoRenderer"
    "graphicsEffects hostNoRenderer = []" "gc hostNoRenderer = Some Returns"
    by (simp_all add: arSystemOf_def disposeThrows_def graphicsEffects_def rendererOf_def
        hostNoRenderer_def)
  have t: "graphicsEffects hostBadTexture = [TextureDispose 0]"
    by (simp add: graphicsEffects_def rendererOf_def hostBadTexture_def)
  show ?thesis
    by (simp add: performCleanup_eq b n t disposeThrows_hostBadTexture mediaEffects_def
        mediaTimers_def videoBlock_def videoTimers_def trackingEffects_def trackingTimers_def clip_def)
qed

text \<open>
  C7 as amended: the effects of \<open>performCleanup(true)\<close> come in the order of the phases:
  the video loop, texture disposal, unbinding, the GC hint, the stop of the tracking
  system, the scheduling of its start. The pass returns exactly when no \<open>dispose()\<close>
  throws. What it performs:
  \<^item> each playing element is paused, rewound, has its source cleared and is reloaded, and
    the restore of its source is scheduled 100 ms ahead, in this order; a paused element
    is not touched;
  \<^item> a texture is disposed exactly when the scene has a renderer whose texture registry
    is an array, the texture has a \<open>dispose\<close> and no texture before it has thrown;
  \<^item> the unbinding calls are, for a renderer with a WebGL context and no throwing
    \<open>dispose()\<close>: for every texture unit in turn the selection of the unit and the
    unbinding of its 2D and cube-map targets, then the array buffer, the element array
    buffer, the renderbuffer and the framebuffer; otherwise there are none;
  \<^item> the GC hint is called exactly when the scene has a renderer, no \<open>dispose()\<close> has
    thrown and \<open>window.gc\<close> exists;
  \<^item> the tracking system is stopped exactly when it exists and no \<open>dispose()\<close> has
    thrown, and its start is scheduled, 1000 ms ahead, exactly when moreover the stop
    returned;
  \<^item> the pending callbacks added by the pass are exactly these restores and this start.
  A restore fired less than 100 ms after the pass does nothing, and fired later sets the
  source of its element back to what it was; the start fired less than 1000 ms after the
  pass does nothing, and fired later calls \<open>start()\<close>.
\<close>

theorem full_cleanup_order:
  assumes "performCleanup h True s = (c, s')"
  shows "\<exists>es ts. trace s' = trace s @ es \<and> timers s' = timers s @ ts \<and>
    sorted (map phase es) \<and>
    (c = Normal \<longleftrightarrow> \<not> disposeThrows h) \<and>
    (\<forall>i<length (videos s).
       filter (touches i) es =
         (if \<not> paused (videos s ! i) then
            [VideoPause i, VideoSeek i 0, VideoSetSrc i [], VideoLoad i,
             SetTimeout (RestoreSrc i (src (videos s ! i))) 100]
          else []) \<and>
       videos s' ! i =
         (if \<not> paused (videos s ! i) then (videos s ! i)\<lparr>paused := True, currentTime := 0, src := []\<rparr>
          else videos s ! i)) \<and>
    (\<forall>n. TextureDispose n \<in> set es \<longleftrightarrow>
       (\<exists>r txs. rendererOf h = Some r \<and> textures r = TextureArray txs \<and> n < length txs \<and>
          (\<exists>oc. txs ! n = Disposable oc) \<and> (\<forall>i<n. txs ! i \<noteq> Disposable Throws))) \<and>
    filter (\<lambda>e. phase e = 3) es =
      (if disposeThrows h then []
       else case rendererOf h of
         None \<Rightarrow> []
       | Some r \<Rightarrow>
           (case getContext r of
              None \<Rightarrow> []
            | Some gl \<Rightarrow>
                concat (map (\<lambda>u. [ActiveTexture u, Unbind TEXTURE_2D, Unbind TEXTURE_CUBE_MAP])
                  [0..<maxTextureImageUnits gl]) @
                [Unbind ARRAY_BUFFER, Unbind ELEMENT_ARRAY_BUFFER, Unbind RENDERBUFFER,
                 Unbind FRAMEBUFFER])) \<and>
    (GcCall \<in> set es \<longleftrightarrow> rendererOf h \<noteq> None \<and> \<not> disposeThrows h \<and> gc h \<noteq> None) \<and>
    (TrackingStop \<in> set es \<longleftrightarrow> \<not> disposeThrows h \<and> arSystemOf h \<noteq> None) \<and>
    (\<forall>d. SetTimeout StartTracking d \<in> set es \<longleftrightarrow>
       d = 1000 \<and> \<not> disposeThrows h \<and> (\<exists>ar. arSystemOf h = Some ar \<and> stop ar = Returns)) \<and>
    ts =
      concat (map (\<lambda>i. if \<not> paused (videos s ! i)
                        then [(now s + 100, RestoreSrc i (src (videos s ! i)))] else [])
        [0..<length (videos s)]) @
      (if \<not> disposeThrows h \<and> (\<exists>ar. arSystemOf h = Some ar \<and> stop ar = Returns)
       then [(now s + 1000, StartTracking)] else []) \<and>
    (\<forall>k<length ts. \<forall>d.
       (\<forall>due i u. ts ! k = (due, RestoreSrc i u) \<longrightarrow>
          (if d < 100 then
             dispatch h (Fire (length (timers s) + k)) (dispatch h (Advance d) s') =
               dispatch h (Advance d) s'
           else
             src (videos (dispatch h (Fire (length (timers s) + k)) (dispatch h (Advance d) s')) ! i) = u \<and>
             trace (dispatch h (Fire (length (timers s) + k)) (dispatch h (Advance d) s')) =
               trace s' @ [VideoSetSrc i u])) \<and>
       (\<forall>due. ts ! k = (due, StartTracking) \<longrightarrow>
          (if d < 1000 then
             dispatch h (Fire (length (timers s) + k)) (dispatch h (Advance d) s') =
               dispatch h (Advance d) s'
           else
             (\<exists>ar. arSystemOf h = Some ar \<and>
                trace (dispatch h (Fire (length (timers s) + k)) (dispatch h (Advance d) s')) =
                  trace s' @ TrackingStart # (if start ar = Throws then [UncaughtError] else [])))))"
proof -
  let ?me = "mediaEffects True (videos s)"
  let ?ge = "graphicsEffects h"
  let ?te = "if disposeThrows h then [] else trackingEffects h True"
  let ?es = "CleanupCall True # ?me @ ?ge @ ?te"
  let ?mt = "mediaTimers True (now s) (videos s)"
  let ?tt = "if disposeThrows h then [] else trackingTimers h True (now s)"
  let ?ts = "?mt @ ?tt"
  have tr: "trace s' = trace s @ ?es"
    using assms by (rule performCleanup_trace)
  have ti: "timers s' = timers s @ ?ts"
    using assms by (rule performCleanup_timers)
  have now: "now s' = now s"
    using performCleanup_fields(4) [OF assms] .
  have vs: "videos s' = map (cleanedVideo True) (videos s)"
    using assms by (auto simp: performCleanup_eq)
  have c: "c = Normal \<longleftrightarrow> \<not> disposeThrows h"
    using performCleanup_fields(6) [OF assms] by simp
  have sorted: "sorted (map phase ?es)"
    using sorted_cleanup_effects [of True "videos s" h] sorted_cleanup_effects_abrupt [of True "videos s" h]
    by (cases "disposeThrows h") simp_all
  have video: "\<forall>i<length (videos s).
       filter (touches i) ?es =
         (if \<not> paused (videos s ! i) then
            [VideoPause i, VideoSeek i 0, VideoSetSrc i [], VideoLoad i,
             SetTimeout (RestoreSrc i (src (videos s ! i))) 100]
          else []) \<and>
       videos s' ! i =
         (if \<not> paused (videos s ! i) then (videos s ! i)\<lparr>paused := True, currentTime := 0, src := []\<rparr>
          else videos s ! i)"
    by (auto simp: filter_touches_mediaEffects filter_touches_graphics filter_touches_tracking
        videoBlock_def touches_def vs cleanedVideo_playing cleanedVideo_paused)
  have dispose: "\<forall>n. TextureDispose n \<in> set ?es \<longleftrightarrow>
       (\<exists>r txs. rendererOf h = Some r \<and> textures r = TextureArray txs \<and> n < length txs \<and>
          (\<exists>oc. txs ! n = Disposable oc) \<and> (\<forall>i<n. txs ! i \<noteq> Disposable Throws))"
    using TextureDispose_pass by blast
  have unbind: "filter (\<lambda>e. phase e = 3) ?es =
      (if disposeThrows h then []
       else case rendererOf h of
         None \<Rightarrow> []
       | Some r \<Rightarrow>
           (case getContext r of
              None \<Rightarrow> []
            | Some gl \<Rightarrow>
                concat (map (\<lambda>u. [ActiveTexture u, Unbind TEXTURE_2D, Unbind TEXTURE_CUBE_MAP])
                  [0..<maxTextureImageUnits gl]) @
                [Unbind ARRAY_BUFFER, Unbind ELEMENT_ARRAY_BUFFER, Unbind RENDERBUFFER,
                 Unbind FRAMEBUFFER]))"
    by (simp only: filter_phase3_pass)
      (simp add: unbindings_def unbindUnits_def split: option.splits)
  have gc: "GcCall \<in> set ?es \<longleftrightarrow> rendererOf h \<noteq> None \<and> \<not> disposeThrows h \<and> gc h \<noteq> None"
    by (simp add: gc_only_in_graphics GcCall_graphicsEffects)
  have stop: "TrackingStop \<in> set ?es \<longleftrightarrow> \<not> disposeThrows h \<and> arSystemOf h \<noteq> None"
    by (simp add: TrackingStop_elsewhere TrackingStop_trackingEffects)
  have start: "\<forall>d. SetTimeout StartTracking d \<in> set ?es \<longleftrightarrow>
       d = 1000 \<and> \<not> disposeThrows h \<and> (\<exists>ar. arSystemOf h = Some ar \<and> stop ar = Returns)"
    by (simp add: SetTimeout_start_elsewhere SetTimeout_start_tracking)
  have ts: "?ts =
      concat (map (\<lambda>i. if \<not> paused (videos s ! i)
                        then [(now s + 100, RestoreSrc i (src (videos s ! i)))] else [])
        [0..<length (videos s)]) @
      (if \<not> disposeThrows h \<and> (\<exists>ar. arSystemOf h = Some ar \<and> stop ar = Returns)
       then [(now s + 1000, StartTracking)] else [])"
    by (simp add: mediaTimers_True trackingTimers_True)
  have mem_restore: "due = now s + 100 \<and> i < length (videos s)"
    if "(due, RestoreSrc i u) \<in> set ?ts" for due i u
    using that by (auto simp: mediaTimers_mem trackingTimers_mem split: if_splits)
  have mem_start: "due = now s + 1000 \<and> (\<exists>ar. arSystemOf h = Some ar)"
    if "(due, StartTracking) \<in> set ?ts" for due
    using that by (auto simp: mediaTimers_mem trackingTimers_mem split: if_splits)
  have fire: "(\<forall>due i u. ?ts ! k = (due, RestoreSrc i u) \<longrightarrow>
          (if d < 100 then
             dispatch h (Fire (length (timers s) + k)) (dispatch h (Advance d) s') =
               dispatch h (Advance d) s'
           else
             src (videos (dispatch h (Fire (length (timers s) + k)) (dispatch h (Advance d) s')) ! i) = u \<and>
             trace (dispatch h (Fire (length (timers s) + k)) (dispatch h (Advance d) s')) =
               trace s' @ [VideoSetSrc i u])) \<and>
       (\<forall>due. ?ts ! k = (due, StartTracking) \<longrightarrow>
          (if d < 1000 then
             dispatch h (Fire (length (timers s) + k)) (dispatch h (Advance d) s') =
               dispatch h (Advance d) s'
           else
             (\<exists>ar. arSystemOf h = Some ar \<and>
                trace (dispatch h (Fire (length (timers s) + k)) (dispatch h (Advance d) s')) =
                  trace s' @ TrackingStart # (if start ar = Throws then [UncaughtError] else []))))"
    if k: "k < length ?ts" for k d
  proof -
    let ?a = "s'\<lparr>now := now s' + d\<rparr>"
    let ?k = "length (timers s) + k"
    have idx: "?k < length (timers ?a)" "timers ?a ! ?k = ?ts ! k" "now ?a = now s + d"
      "length (videos ?a) = length (videos s)" "trace ?a = trace s'"
      using k by (simp_all add: ti now vs nth_append)
    have r: "(if d < 100 then fire h ?k ?a = ?a
           else src (videos (fire h ?k ?a) ! i) = u \<and> trace (fire h ?k ?a) = trace s' @ [VideoSetSrc i u])"
      if eq: "?ts ! k = (due, RestoreSrc i u)" for due i u
    proof -
      from eq k have "(due, RestoreSrc i u) \<in> set ?ts"
        by (metis nth_mem)
      from mem_restore [OF this] have due: "due = now s + 100" and i: "i < length (videos s)"
        by simp_all
      show ?thesis
      proof (cases "d < 100")
        case True
        then have "fire h ?k ?a = ?a"
          using idx eq due by (intro fire_not_due) simp_all
        with True show ?thesis by simp
      next
        case False
        then have "src (videos (fire h ?k ?a) ! i) = u \<and> trace (fire h ?k ?a) = trace ?a @ [VideoSetSrc i u]"
          using idx eq due i by (intro fire_restore [of _ _ due]) simp_all
        with False idx(5) show ?thesis by simp
      qed
    qed
    have st: "(if d < 1000 then fire h ?k ?a = ?a
           else \<exists>ar. arSystemOf h = Some ar \<and>
             trace (fire h ?k ?a) = trace s' @ TrackingStart # (if start ar = Throws then [UncaughtError] else []))"
      if eq: "?ts ! k = (due, StartTracking)" for due
    proof -
      from eq k have "(due, StartTracking) \<in> set ?ts"
        by (metis nth_mem)
      from mem_start [OF this] obtain ar where due: "due = now s + 1000" and ar: "arSystemOf h = Some ar"
        by blast
      show ?thesis
      proof (cases "d < 1000")
        case True
        then have "fire h ?k ?a = ?a"
          using idx eq due by (intro fire_not_due) simp_all
        with True show ?thesis by simp
      next
        case False
        then have "trace (fire h ?k ?a) =
            trace ?a @ TrackingStart # (if start ar = Throws then [UncaughtError] else [])"
          using idx eq due ar by (intro fire_start [of _ _ due]) simp_all
        with False idx(5) ar show ?thesis by simp
      qed
    qed
    from r st show ?thesis
      unfolding dispatch.simps by blast
  qed
  show ?thesis
    apply (rule exI [of _ ?es])
    apply (rule exI [of _ ?ts])
    apply (intro conjI)
              apply (rule tr)
             apply (rule ti)
            apply (rule sorted)
           apply (rule c)
          apply (rule video)
         apply (rule dispose)
        apply (rule unbind)
       apply (rule gc)
      apply (rule stop)
     apply (rule start)
    apply (rule ts)
    using fire apply blast
    done
qed

theorem full_cleanup_order_witness:
  "fst (performCleanup hostOk True (initial [clip, still])) = Normal \<and>
   \<not> paused (videos (initial [clip, still]) ! 0) \<and> paused (videos (initial [clip, still]) ! 1) \<and>
   rendererOf hostOk \<noteq> None \<and> arSystemOf hostOk \<noteq> None \<and> \<not> disposeThrows hostOk \<and>
   sorted (map phase (trace (snd (performCleanup hostOk True (initial [clip, still]))))) \<and>
   filter (touches 0) (trace (snd (performCleanup hostOk True (initial [clip, still])))) =
     [VideoPause 0, VideoSeek 0 0, VideoSetSrc 0 [], VideoLoad 0,
      SetTimeout (RestoreSrc 0 ''book.mp4'') 100] \<and>
   filter (\<lambda>e. phase e = 3) (trace (snd (performCleanup hostOk True (initial [clip, still])))) =
     [ActiveTexture 0, Unbind TEXTURE_2D, Unbind TEXTURE_CUBE_MAP,
      ActiveTexture 1, Unbind TEXTURE_2D, Unbind TEXTURE_CUBE_MAP,
      Unbind ARRAY_BUFFER, Unbind ELEMENT_ARRAY_BUFFER, Unbind RENDERBUFFER, Unbind FRAMEBUFFER] \<and>
   TextureDispose 0 \<in> set (trace (snd (performCleanup hostOk True (initial [clip, still])))) \<and>
   GcCall \<in> set (trace (snd (performCleanup hostOk True (initial [clip, still])))) \<and>
   TrackingStop \<in> set (trace (snd (performCleanup hostOk True (initial [clip, still])))) \<and>
   timers (snd (performCleanup hostOk True (initial [clip, still]))) =
     [(100, RestoreSrc 0 ''book.mp4''), (1000, StartTracking)] \<and>
   src (videos (snd (performCleanup hostOk True (initial [clip, still]))) ! 0) = [] \<and>
   run hostOk [Advance 99, Fire 0] (snd (performCleanup hostOk True (initial [clip, still]))) =
     run hostOk [Advance 99] (snd (performCleanup hostOk True (initial [clip, still]))) \<and>
   src (videos (run hostOk [Advance 100, Fire 0]
     (snd (performCleanup hostOk True (initial [clip, still])))) ! 0) = ''book.mp4'' \<and>
   run hostOk [Advance 999, Fire 1] (snd (performCleanup hostOk True (initial [clip, still]))) =
     run hostOk [Advance 999] (snd (performCleanup hostOk True (initial [clip, still]))) \<and>
   trace (run hostOk [Advance 1000, Fire 1] (snd (performCleanup hostOk True (initial [clip, still])))) =
     trace (snd (performCleanup hostOk True (initial [clip, still]))) @ [TrackingStart]"
proof -
  let ?s = "initial [clip, still]"
  let ?c = "fst (performCleanup hostOk True ?s)"
  let ?s' = "snd (performCleanup hostOk True ?s)"
  let ?r = "\<lparr>getContext = Some \<lparr>maxTextureImageUnits = 2\<rparr>,
       textures = TextureArray [Disposable Returns, NoDispose]\<rparr>"
  have a: "performCleanup hostOk True ?s = (?c, ?s')"
    by simp
  have v: "\<not> paused (videos ?s ! 0)" "paused (videos ?s ! 1)" "src (videos ?s ! 0) = ''book.mp4''"
    "length (videos ?s) = 2"
    by (simp_all add: clip_def still_def)
  have r: "rendererOf hostOk = Some ?r"
    by (simp add: rendererOf_def hostOk_def)
  have g: "gc hostOk \<noteq> None"
    by (simp add: hostOk_def)
  note d = disposeThrows_hostOk
  note ar = arSystemOf_hostOk
  from full_cleanup_order [OF a] obtain es ts where big:
    "trace ?s' = trace ?s @ es \<and> timers ?s' = timers ?s @ ts \<and>
    sorted (map phase es) \<and>
    (?c = Normal \<longleftrightarrow> \<not> disposeThrows hostOk) \<and>
    (\<forall>i<length (videos ?s).
       filter (touches i) es =
         (if \<not> paused (videos ?s ! i) then
            [VideoPause i, VideoSeek i 0, VideoSetSrc i [], VideoLoad i,
             SetTimeout (RestoreSrc i (src (videos ?s ! i))) 100]
          else []) \<and>
       videos ?s' ! i =
         (if \<not> paused (videos ?s ! i) then (videos ?s ! i)\<lparr>paused := True, currentTime := 0, src := []\<rparr>
          else videos ?s ! i)) \<and>
    (\<forall>n. TextureDispose n \<in> set es \<longleftrightarrow>
       (\<exists>r txs. rendererOf hostOk = Some r \<and> textures r = TextureArray txs \<and> n < length txs \<and>
          (\<exists>oc. txs ! n = Disposable oc) \<and> (\<forall>i<n. txs ! i \<noteq> Disposable Throws))) \<and>
    filter (\<lambda>e. phase e = 3) es =
      (if disposeThrows hostOk then []
       else case rendererOf hostOk of
         None \<Rightarrow> []
       | Some r \<Rightarrow>
           (case getContext r of
              None \<Rightarrow> []
            | Some gl \<Rightarrow>
                concat (map (\<lambda>u. [ActiveTexture u, Unbind TEXTURE_2D, Unbind TEXTURE_CUBE_MAP])
                  [0..<maxTextureImageUnits gl]) @
                [Unbind ARRAY_BUFFER, Unbind ELEMENT_ARRAY_BUFFER, Unbind RENDERBUFFER,
                 Unbind FRAMEBUFFER])) \<and>
    (GcCall \<in> set es \<longleftrightarrow> rendererOf hostOk \<noteq> None \<and> \<not> disposeThrows hostOk \<and> gc hostOk \<noteq> None) \<and>
    (TrackingStop \<in> set es \<longleftrightarrow> \<not> disposeThrows hostOk \<and> arSystemOf hostOk \<noteq> None) \<and>
    (\<forall>d. SetTimeout StartTracking d \<in> set es \<longleftrightarrow>
       d = 1000 \<and> \<not> disposeThrows hostOk \<and> (\<exists>ar. arSystemOf hostOk = Some ar \<and> stop ar = Returns)) \<and>
    ts =
      concat (map (\<lambda>i. if \<not> paused (videos ?s ! i)
                        then [(now ?s + 100, RestoreSrc i (src (videos ?s ! i)))] else [])
        [0..<length (videos ?s)]) @
      (if \<not> disposeThrows hostOk \<and> (\<exists>ar. arSystemOf hostOk = Some ar \<and> stop ar = Returns)
       then [(now ?s + 1000, StartTracking)] else []) \<and>
    (\<forall>k<length ts. \<forall>d.
       (\<forall>due i u. ts ! k = (due, RestoreSrc i u) \<longrightarrow>
          (if d < 100 then
             dispatch hostOk (Fire (length (timers ?s) + k)) (dispatch hostOk (Advance d) ?s') =
               dispatch hostOk (Advance d) ?s'
           else
             src (videos (dispatch hostOk (Fire (length (timers ?s) + k)) (dispatch hostOk (Advance d) ?s')) ! i) = u \<and>
             trace (dispatch hostOk (Fire (length (timers ?s) + k)) (dispatch hostOk (Advance d) ?s')) =
               trace ?s' @ [VideoSetSrc i u])) \<and>
       (\<forall>due. ts ! k = (due, StartTracking) \<longrightarrow>
          (if d < 1000 then
             dispatch hostOk (Fire (length (timers ?s) + k)) (dispatch hostOk (Advance d) ?s') =
               dispatch hostOk (Advance d) ?s'
           else
             (\<exists>ar. arSystemOf hostOk = Some ar \<and>
                trace (dispatch hostOk (Fire (length (timers ?s) + k)) (dispatch hostOk (Advance d) ?s')) =
                  trace ?s' @ TrackingStart # (if start ar = Throws then [UncaughtError] else [])))))"
    by (elim exE) (erule that)
  note tr = big [THEN conjunct1]
  note b1 = big [THEN conjunct2]
  note ti = b1 [THEN conjunct1]
  note b2 = b1 [THEN conjunct2]
  note so = b2 [THEN conjunct1]
  note b3 = b2 [THEN conjunct2]
  note c = b3 [THEN conjunct1]
  note b4 = b3 [THEN conjunct2]
  note vid = b4 [THEN conjunct1]
  note b5 = b4 [THEN conjunct2]
  note dis = b5 [THEN conjunct1]
  note b6 = b5 [THEN conjunct2]
  note unb = b6 [THEN conjunct1]
  note b7 = b6 [THEN conjunct2]
  note gcc = b7 [THEN conjunct1]
  note b8 = b7 [THEN conjunct2]
  note stp = b8 [THEN conjunct1]
  note b9 = b8 [THEN conjunct2]
  note b10 = b9 [THEN conjunct2]
  note tsv = b10 [THEN conjunct1]
  note fir = b10 [THEN conjunct2]
  have es: "trace ?s' = es"
    using tr by simp
  have ts: "ts = [(100, RestoreSrc 0 ''book.mp4''), (1000, StartTracking)]"
    using tsv by (simp add: d ar clip_def still_def)
  have 1: "?c = Normal"
    using c d by simp
  have 2: "filter (touches 0) es =
     [VideoPause 0, VideoSeek 0 0, VideoSetSrc 0 [], VideoLoad 0,
      SetTimeout (RestoreSrc 0 ''book.mp4'') 100]" "src (videos ?s' ! 0) = []"
    using vid v by simp_all
  have 3: "filter (\<lambda>e. phase e = 3) es =
     [ActiveTexture 0, Unbind TEXTURE_2D, Unbind TEXTURE_CUBE_MAP,
      ActiveTexture 1, Unbind TEXTURE_2D, Unbind TEXTURE_CUBE_MAP,
      Unbind ARRAY_BUFFER, Unbind ELEMENT_ARRAY_BUFFER, Unbind RENDERBUFFER, Unbind FRAMEBUFFER]"
    using unb by (simp add: d r upt_rec)
  have 4: "TextureDispose 0 \<in> set es" "GcCall \<in> set es" "TrackingStop \<in> set es"
    using dis gcc stp by (simp_all add: d r g ar)
  have 5: "dispatch hostOk (Fire 0) (dispatch hostOk (Advance 99) ?s') = dispatch hostOk (Advance 99) ?s'"
    "src (videos (dispatch hostOk (Fire 0) (dispatch hostOk (Advance 100) ?s')) ! 0) = ''book.mp4''"
    using fir [rule_format, of 0 99] fir [rule_format, of 0 100] by (simp_all add: ts)
  have 6: "dispatch hostOk (Fire 1) (dispatch hostOk (Advance 999) ?s') = dispatch hostOk (Advance 999) ?s'"
    "trace (dispatch hostOk (Fire 1) (dispatch hostOk (Advance 1000) ?s')) = trace ?s' @ [TrackingStart]"
    using fir [rule_format, of 1 999] fir [rule_format, of 1 1000] by (simp_all add: ts ar)
  have 7: "timers ?s' = [(100, RestoreSrc 0 ''book.mp4''), (1000, StartTracking)]"
    using ti ts by simp
  show ?thesis
    using 1 v(1,2) r ar d so 2 3 4 5 6 7 by (simp add: run_def es)
qed

section \<open>The GC hint\<close>

text \<open>
  C8 as stated: the GC hint is requested whenever \<open>window.gc\<close> exists, whether or not a
  graphics context is available. This fails: the call is written inside
  \<open>if (scene?.renderer)\<close>. Below, \<open>window.gc\<close> exists and the scene has no renderer; neither a
  Light nor a Full pass calls it, nor does the pass started by \<open>pagehide\<close>.
\<close>

theorem gc_hint_skipped_counterexample:
  "gc hostNoRenderer = Some Returns \<and>
   trace (snd (performCleanup hostNoRenderer False (initial []))) = [CleanupCall False] \<and>
   trace (snd (performCleanup hostNoRenderer True (initial []))) = [CleanupCall True] \<and>
   trace (dispatch hostNoRenderer PageHide (initial [])) = [CleanupCall True]"
  by (simp add: performCleanup_eq mediaEffects_def graphicsEffects_def rendererOf_def
      trackingEffects_def arSystemOf_def hostNoRenderer_def disposeThrows_def
      pagehide_def runHandler_def)

text \<open>
  C8 as amended: in every pass, Light or Full, the GC hint is requested exactly when the
  scene has a renderer, no texture \<open>dispose()\<close> has thrown and \<open>window.gc\<close> exists; whether
  the renderer yields a WebGL context plays no role. A hint that throws is caught and
  logged, and the pass returns normally; a missing hint is skipped without a log entry.
\<close>

theorem gc_hint_inside_renderer_block:
  assumes "performCleanup h fullCleanup s = (c, s')"
  shows "\<exists>es. trace s' = trace s @ es \<and>
    (GcCall \<in> set es \<longleftrightarrow> rendererOf h \<noteq> None \<and> \<not> disposeThrows h \<and> gc h \<noteq> None) \<and>
    (ConsoleWarn ''GC not available'' \<in> set es \<longleftrightarrow>
       rendererOf h \<noteq> None \<and> \<not> disposeThrows h \<and> gc h = Some Throws) \<and>
    (c = Normal \<longleftrightarrow> \<not> disposeThrows h)"
proof -
  let ?es = "CleanupCall fullCleanup # mediaEffects fullCleanup (videos s) @ graphicsEffects h @
        (if disposeThrows h then [] else trackingEffects h fullCleanup)"
  have "trace s' = trace s @ ?es"
    using assms by (rule performCleanup_trace)
  moreover have "GcCall \<in> set ?es \<longleftrightarrow> rendererOf h \<noteq> None \<and> \<not> disposeThrows h \<and> gc h \<noteq> None"
    by (simp add: gc_only_in_graphics GcCall_graphicsEffects)
  moreover have "ConsoleWarn ''GC not available'' \<in> set ?es \<longleftrightarrow>
       rendererOf h \<noteq> None \<and> \<not> disposeThrows h \<and> gc h = Some Throws"
    by (simp add: gc_only_in_graphics warn_graphicsEffects)
  moreover have "c = Normal \<longleftrightarrow> \<not> disposeThrows h"
    using performCleanup_fields(6) [OF assms] by simp
  ultimately show ?thesis by blast
qed

theorem gc_hint_inside_renderer_block_witness:
  "rendererOf hostBadStop \<noteq> None \<and> getContext (the (rendererOf hostBadStop)) = None \<and>
   \<not> disposeThrows hostBadStop \<and> gc hostBadStop = Some Throws \<and>
   fst (performCleanup hostBadStop False (initial [])) = Normal \<and>
   (\<exists>es. trace (snd (performCleanup hostBadStop False (initial []))) = trace (initial []) @ es \<and>
      GcCall \<in> set es \<and> ConsoleWarn ''GC not available'' \<in> set es)"
proof -
  have a: "performCleanup hostBadStop False (initial []) =
      (fst (performCleanup hostBadStop False (initial [])),
       snd (performCleanup hostBadStop False (initial [])))"
    by simp
  have b: "rendererOf hostBadStop \<noteq> None" "getContext (the (rendererOf hostBadStop)) = None"
    "\<not> disposeThrows hostBadStop" "gc hostBadStop = Some Throws"
    by (simp_all add: rendererOf_def disposeThrows_def hostBadStop_def)
  show ?thesis
    using gc_hint_inside_renderer_block [OF a] b by simp
qed

section \<open>Restart of the tracking system\<close>

text \<open>
  C9, evaluated where it fails: the Full pass of a full tick on a page whose tracking
  system throws in \<open>start()\<close>. The callback passed to \<open>setTimeout\<close> runs 1000 ms later, when the \<open>try\<close> block
  has long been left: the exception is not caught and no warning is logged. An exception
  of \<open>stop()\<close>, which runs inside the \<open>try\<close>, is caught and logged.
\<close>

theorem start_error_uncaught:
  "trace (run hostBadStart [FullTick, Advance 1000, Fire 0] (initial [])) =
     [CleanupCall True, TrackingStop, SetTimeout StartTracking 1000, TrackingStart, UncaughtError] \<and>
   trace (run hostBadStop [FullTick] (initial [])) =
     [CleanupCall True, GcCall, ConsoleWarn ''GC not available'', TrackingStop,
      ConsoleWarn ''AR system cleanup error:'']"
proof -
  let ?s1 = "runHandler (timerTick hostBadStart True) (initial [])"
  let ?s2 = "?s1\<lparr>now := now ?s1 + 1000\<rparr>"
  have a: "arSystemOf hostBadStart = Some \<lparr>stop = Returns, start = Throws\<rparr>"
    "\<not> disposeThrows hostBadStart" "graphicsEffects hostBadStart = []"
    by (simp_all add: arSystemOf_def disposeThrows_def graphicsEffects_def rendererOf_def
        unbindings_def gcEffects_def hostBadStart_def)
  have b: "arSystemOf hostBadStop = Some \<lparr>stop = Throws, start = Returns\<rparr>"
    "\<not> disposeThrows hostBadStop"
    "graphicsEffects hostBadStop = [GcCall, ConsoleWarn ''GC not available'']"
    by (simp_all add: arSystemOf_def disposeThrows_def graphicsEffects_def rendererOf_def
        unbindings_def gcEffects_def hostBadStop_def)
  have s1: "trace ?s1 = [CleanupCall True, TrackingStop, SetTimeout StartTracking 1000]"
    "timers ?s1 = [(1000, StartTracking)]" "now ?s1 = 0"
    by (simp_all add: runHandler_timerTick runHandler_guarded_eq a performCleanup_eq
        mediaEffects_def mediaTimers_def trackingEffects_def trackingTimers_def)
  have "trace (fire hostBadStart 0 ?s2) = trace ?s2 @ [TrackingStart, UncaughtError]"
    by (rule fire_start_throws [of _ _ 1000 _ "\<lparr>stop = Returns, start = Throws\<rparr>"])
      (simp_all add: s1 a)
  then have "trace (run hostBadStart [FullTick, Advance 1000, Fire 0] (initial [])) =
     [CleanupCall True, TrackingStop, SetTimeout StartTracking 1000, TrackingStart, UncaughtError]"
    by (simp add: run_def s1)
  moreover have "trace (run hostBadStop [FullTick] (initial [])) =
     [CleanupCall True, GcCall, ConsoleWarn ''GC not available'', TrackingStop,
      ConsoleWarn ''AR system cleanup error:'']"
    by (simp add: run_def runHandler_timerTick runHandler_guarded_eq b performCleanup_eq
        mediaEffects_def trackingEffects_def)
  ultimately show ?thesis by simp
qed

section \<open>Paused elements\<close>

text \<open>
  C10. An element that is already paused when \<open>performCleanup\<close> runs is left as it is, at
  both levels: the pass makes no call on it (no pause, no seek, no change of \<open>src\<close>, no
  \<open>load\<close>) and schedules no restore of its source; the element after the pass equals the
  element before.
\<close>

theorem paused_video_untouched:
  assumes "performCleanup h fullCleanup s = (c, s')"
    and "i < length (videos s)" and "paused (videos s ! i)"
  shows "videos s' ! i = videos s ! i \<and>
    (\<exists>es ts. trace s' = trace s @ es \<and> timers s' = timers s @ ts \<and>
       (\<forall>e\<in>set es. \<not> touches i e) \<and> (\<forall>d u. (d, RestoreSrc i u) \<notin> set ts))"
proof -
  let ?es = "CleanupCall fullCleanup # mediaEffects fullCleanup (videos s) @ graphicsEffects h @
    (if disposeThrows h then [] else trackingEffects h fullCleanup)"
  let ?ts = "mediaTimers fullCleanup (now s) (videos s) @
    (if disposeThrows h then [] else trackingTimers h fullCleanup (now s))"
  from assms(1) have s': "s' = s\<lparr>videos := map (cleanedVideo fullCleanup) (videos s),
      timers := timers s @ ?ts, trace := trace s @ ?es\<rparr>"
    by (simp add: performCleanup_eq)
  have v: "videos s' ! i = videos s ! i"
    using assms(2,3) by (simp add: s' cleanedVideo_paused)
  have "filter (touches i) ?es = []"
    using assms(2,3)
    by (simp add: filter_touches_mediaEffects filter_touches_graphics filter_touches_tracking
        videoBlock_def touches_def)
  then have e: "\<forall>e\<in>set ?es. \<not> touches i e"
    by (simp only: filter_empty_conv)
  have t: "\<forall>d u. (d, RestoreSrc i u) \<notin> set ?ts"
    using assms(3) by (auto simp: mediaTimers_mem trackingTimers_mem)
  have "trace s' = trace s @ ?es" "timers s' = timers s @ ?ts"
    by (simp_all add: s')
  with v e t show ?thesis by blast
qed

theorem paused_video_untouched_witness:
  "1 < length (videos (initial [clip, still])) \<and> paused (videos (initial [clip, still]) ! 1) \<and>
   videos (snd (performCleanup hostOk True (initial [clip, still]))) ! 1 = still"
proof -
  have a: "performCleanup hostOk True (initial [clip, still]) =
      (fst (performCleanup hostOk True (initial [clip, still])),
       snd (performCleanup hostOk True (initial [clip, still])))"
    by simp
  have b: "1 < length (videos (initial [clip, still]))"
    by (simp add: initial_def)
  have c: "paused (videos (initial [clip, still]) ! 1)"
    by (simp add: initial_def still_def)
  show ?thesis
    using paused_video_untouched [OF a b c] b c by (simp add: initial_def)
qed

end
